theory Spec2Isabelle
  imports Complex_Main "HOL-Library.Word" "HOL-Library.Signed_Division"
begin

unbundle bit_operations_syntax

section \<open>Go values\<close>

text \<open>
  The package is written for 64-bit Go: \<open>int\<close> is a 64-bit two's complement integer whose
  arithmetic wraps around, \<open>byte\<close> is an unsigned 8-bit integer, \<open>uint16\<close> an unsigned 16-bit
  one. Words carry the bits; \<open>sint\<close> reads an \<open>int\<close>, \<open>unat\<close> a \<open>byte\<close>. Comparisons of
  \<open>int\<close>s are the signed ones (\<open><s\<close>, \<open>\<le>s\<close>), comparisons of \<open>byte\<close>s the unsigned ones.
  A Go string is a sequence of bytes, as \<open>string\<close> is.
\<close>

type_synonym go_int = "64 word"
type_synonym byte = "8 word"
type_synonym uint16 = "16 word"

text \<open>Go's \<open>/\<close> and \<open>%\<close> on \<open>int\<close> truncate towards zero.\<close>

definition go_div :: "go_int \<Rightarrow> go_int \<Rightarrow> go_int" where
  "go_div a b = word_of_int (sint a sdiv sint b)"

definition go_mod :: "go_int \<Rightarrow> go_int \<Rightarrow> go_int" where
  "go_mod a b = word_of_int (sint a smod sint b)"

text \<open>The conversions \<open>byte(x)\<close> and \<open>uint16(x)\<close> of an \<open>int\<close> keep the low bits.\<close>

definition to_byte :: "go_int \<Rightarrow> byte" where
  "to_byte x = ucast x"

definition to_uint16 :: "go_int \<Rightarrow> uint16" where
  "to_uint16 x = ucast x"

text \<open>\<open>[]byte(s)\<close> of a string.\<close>

definition bytes_of :: "string \<Rightarrow> byte list" where
  "bytes_of s = map of_char s"

section \<open>raster.go: \<open>intLowHigh\<close>\<close>

definition gs8lMaxY :: go_int where
  "gs8lMaxY = 1662"

text \<open>
  \<open>intLowHigh\<close> appends \<open>byte(inpNumber % 256)\<close> and divides \<open>inpNumber\<close> by 256, once for
  every \<open>i\<close> from 0 while \<open>i < outBytes\<close>. Its two range checks only call \<open>log.Println\<close>
  (the standard logger, not the printer) and fall through, so they have no branch here:
  the function returns the bytes of the loop for every input.
\<close>

function intLowHigh_loop :: "go_int \<Rightarrow> go_int \<Rightarrow> go_int \<Rightarrow> byte list \<Rightarrow> byte list" where
  "intLowHigh_loop inpNumber outBytes i outp =
     (if i <s outBytes
      then intLowHigh_loop (go_div inpNumber 256) outBytes (i + 1)
             (outp @ [to_byte (go_mod inpNumber 256)])
      else outp)"
  by pat_completeness auto

definition intLowHigh :: "go_int \<Rightarrow> go_int \<Rightarrow> byte list" where
  "intLowHigh inpNumber outBytes = intLowHigh_loop inpNumber outBytes 0 []"

text \<open>
  The little-endian base-256 digits of a natural number, \<open>k\<close> of them: the reading of
  ``the \<open>k\<close>-byte little-endian encoding'' that the statements below compare the code with.
  Digits beyond the \<open>k\<close>-th are dropped.
\<close>

definition le_digits :: "nat \<Rightarrow> nat \<Rightarrow> nat list" where
  "le_digits k n = map (\<lambda>i. n div 256 ^ i mod 256) [0..<k]"

text \<open>The number that a list of base-256 digits stands for, lowest digit first.\<close>

fun le_value :: "nat list \<Rightarrow> nat" where
  "le_value [] = 0"
| "le_value (d # ds) = d + 256 * le_value ds"

section \<open>The standard library, as far as the printer uses it\<close>

text \<open>
  The verb \<open>%c\<close> of \<open>fmt.Sprintf\<close> reads its integer operand as an unsigned 64-bit number
  and writes the UTF-8 encoding of that code point; an operand beyond U+10FFFF or in the
  surrogate range is written as U+FFFD. Only operands below 128 come out as one byte.
\<close>

definition utf8_AppendRune :: "nat \<Rightarrow> byte list" where
  "utf8_AppendRune r =
     (if r \<le> 0x7F then [of_nat r]
      else if r \<le> 0x7FF then [of_nat (0xC0 + r div 64), of_nat (0x80 + r mod 64)]
      else if 0x10FFFF < r \<or> (0xD800 \<le> r \<and> r \<le> 0xDFFF) then [0xEF, 0xBF, 0xBD]
      else if r \<le> 0xFFFF
        then [of_nat (0xE0 + r div 4096), of_nat (0x80 + r div 64 mod 64), of_nat (0x80 + r mod 64)]
      else [of_nat (0xF0 + r div 262144), of_nat (0x80 + r div 4096 mod 64),
            of_nat (0x80 + r div 64 mod 64), of_nat (0x80 + r mod 64)])"

definition fmtC :: "nat \<Rightarrow> byte list" where
  "fmtC c = utf8_AppendRune (if 0x10FFFF < c then 0xFFFD else c)"

text \<open>\<open>[]byte(fmt.Sprintf(prefix + "%c", c))\<close> for a prefix without verbs.\<close>

definition Sprintf_c :: "string \<Rightarrow> nat \<Rightarrow> byte list" where
  "Sprintf_c prefix c = bytes_of prefix @ fmtC c"

text \<open>The verb \<open>%v\<close> writes an \<open>int\<close> in decimal; here only for a length.\<close>

fun decimal :: "nat \<Rightarrow> string" where
  "decimal n = (if n < 10 then [char_of (48 + n)] else decimal (n div 10) @ [char_of (48 + n mod 10)])"

text \<open>
  \<open>strconv.Atoi\<close> reads an optional sign and then one or more decimal digits. It goes
  through the bytes from the left: a byte that is no digit is a syntax error, a value that
  leaves the unsigned 64-bit range is a range error at the digit where it does; at the end
  a value that does not fit a signed \<open>int\<close> is a range error.
\<close>

datatype error = ErrNoWriter | ErrSyntax | ErrRange

definition is_digit :: "char \<Rightarrow> bool" where
  "is_digit c = (48 \<le> (of_char c :: nat) \<and> (of_char c :: nat) \<le> 57)"

fun ParseUint :: "nat \<Rightarrow> string \<Rightarrow> error + nat" where
  "ParseUint n [] = Inr n"
| "ParseUint n (c # cs) =
     (if \<not> is_digit c then Inl ErrSyntax
      else if 18446744073709551615 < n * 10 + (of_char c - 48) then Inl ErrRange
      else ParseUint (n * 10 + (of_char c - 48)) cs)"

definition Atoi :: "string \<Rightarrow> error + go_int" where
  "Atoi s =
     (let neg = (s \<noteq> [] \<and> hd s = CHR ''-'');
          ds = (if s \<noteq> [] \<and> (hd s = CHR ''-'' \<or> hd s = CHR ''+'') then tl s else s)
      in if ds = [] then Inl ErrSyntax
         else (case ParseUint 0 ds of
                 Inl err \<Rightarrow> Inl err
               | Inr un \<Rightarrow>
                   if \<not> neg \<and> 9223372036854775808 \<le> un then Inl ErrRange
                   else if neg \<and> 9223372036854775808 < un then Inl ErrRange
                   else Inr (word_of_int (if neg then - int un else int un))))"

text \<open>
  \<open>strings.ToUpper\<close> of a string of one byte: an ASCII letter in upper case, any other
  ASCII byte as it is, and a byte that is no ASCII (no valid UTF-8 alone) as U+FFFD.
\<close>

definition ToUpper_byte :: "char \<Rightarrow> string" where
  "ToUpper_byte c =
     (let n = (of_char c :: nat)
      in if 97 \<le> n \<and> n \<le> 122 then [char_of (n - 32)]
         else if n < 128 then [c]
         else [CHR 0xEF, CHR 0xBF, CHR 0xBD])"

text \<open>
  A \<open>strings.Replacer\<close> scans its argument from the left; at each position the first pair
  (in argument order) whose old string starts there is replaced and skipped, and a byte
  where none starts is copied.
\<close>

definition textReplacer :: "(string \<times> string) list" where
  "textReplacer =
     [(''&#9;'', [CHR 0x09]), (''&#x9;'', [CHR 0x09]),
      (''&#10;'', [CHR 0x0A]), (''&#xA;'', [CHR 0x0A]),
      (''&apos;'', [CHR 0x27]), (''&quot;'', [CHR 0x22]),
      (''&gt;'', ''>''), (''&lt;'', ''<''),
      (''&amp;'', ''&'')]"

fun Replace :: "(string \<times> string) list \<Rightarrow> string \<Rightarrow> string" where
  "Replace pairs [] = []"
| "Replace pairs (c # cs) =
     (case find (\<lambda>(old, new). old \<noteq> [] \<and> take (length old) (c # cs) = old) pairs of
        Some (old, new) \<Rightarrow> new @ Replace pairs (drop (length old - 1) cs)
      | None \<Rightarrow> c # Replace pairs cs)"

text \<open>
  A slice of bytes: the elements of its backing array from the slice's first element up
  to its capacity, and its length. A slice expression \<open>s[lo:hi]\<close> panics unless
  \<open>0 \<le> lo \<le> hi \<le> cap(s)\<close>.
\<close>

record byte_slice =
  backing :: "byte list"
  slice_len :: nat

definition contents :: "byte_slice \<Rightarrow> byte list" where
  "contents s = take (slice_len s) (backing s)"

definition reslice :: "byte_slice \<Rightarrow> go_int \<Rightarrow> go_int \<Rightarrow> byte_slice option" where
  "reslice s lo hi =
     (if 0 \<le>s lo \<and> lo \<le>s hi \<and> sint hi \<le> int (length (backing s))
      then Some \<lparr>backing = drop (nat (sint lo)) (backing s),
                 slice_len = nat (sint hi) - nat (sint lo)\<rparr>
      else None)"

datatype panic = SliceBoundsOutOfRange

datatype 'a outcome = Return 'a | Panic panic

section \<open>The printer and its commands\<close>

text \<open>
  The printer's destination is an \<open>io.Writer\<close>. The code never looks at what \<open>Write\<close>
  returns, so the destination is modelled by what it is handed: the buffers of the calls
  of \<open>w.Write\<close>, oldest first. The embedded mutex is never locked by the package.
\<close>

record Printer =
  p_w :: "byte list list"
  p_width :: byte
  p_height :: byte
  p_underline :: byte
  p_emphasize :: byte
  p_upsidedown :: byte
  p_rotate :: byte
  p_reverse :: byte
  p_smooth :: byte

definition NewPrinter :: "byte list list option \<Rightarrow> error + Printer" where
  "NewPrinter wr =
     (case wr of
        None \<Rightarrow> Inl ErrNoWriter
      | Some dest \<Rightarrow>
          Inr \<lparr>p_w = dest, p_width = 1, p_height = 1, p_underline = 0, p_emphasize = 0,
               p_upsidedown = 0, p_rotate = 0, p_reverse = 0, p_smooth = 0\<rparr>)"

definition Reset :: "Printer \<Rightarrow> Printer" where
  "Reset p = p\<lparr>p_width := 1, p_height := 1, p_underline := 0, p_emphasize := 0,
               p_upsidedown := 0, p_rotate := 0, p_reverse := 0, p_smooth := 0\<rparr>"

definition Write :: "byte list \<Rightarrow> Printer \<Rightarrow> Printer" where
  "Write buf p = p\<lparr>p_w := p_w p @ [buf]\<rparr>"

definition Init :: "Printer \<Rightarrow> Printer" where
  "Init p = Write [0x1B, 0x40] (Reset p)"

definition End :: "Printer \<Rightarrow> Printer" where
  "End p = Write [0xFA] p"

definition Cut :: "Printer \<Rightarrow> Printer" where
  "Cut p = Write [0x1D, 0x56, 0x41, 0x30] p"

definition Cash :: "Printer \<Rightarrow> Printer" where
  "Cash p = Write [0x1B, 0x70, 0x00, 0x0A, 0xFF] p"

definition Linefeed :: "Printer \<Rightarrow> Printer" where
  "Linefeed p = Write [0x0A] p"

definition FormfeedN :: "go_int \<Rightarrow> Printer \<Rightarrow> Printer" where
  "FormfeedN n p = Write (Sprintf_c [CHR 0x1B, CHR ''d''] (unat n)) p"

definition Formfeed :: "Printer \<Rightarrow> Printer" where
  "Formfeed p = FormfeedN 1 p"

definition SetFont :: "string \<Rightarrow> Printer \<Rightarrow> Printer" where
  "SetFont font p =
     (let f = (if font = ''A'' then 0 else if font = ''B'' then 1 else if font = ''C'' then 2 else 0)
      in Write (Sprintf_c [CHR 0x1B, CHR ''M''] f) p)"

definition SendFontSize :: "Printer \<Rightarrow> Printer" where
  "SendFontSize p =
     Write (Sprintf_c [CHR 0x1D, CHR ''!'']
              (unat (push_bit 4 (p_width p - 1) OR (p_height p - 1)))) p"

definition SetFontSize :: "byte \<Rightarrow> byte \<Rightarrow> Printer \<Rightarrow> Printer" where
  "SetFontSize width height p =
     (if 0 < width \<and> 0 < height \<and> width \<le> 8 \<and> height \<le> 8
      then SendFontSize (p\<lparr>p_width := width, p_height := height\<rparr>)
      else p)"

definition SendUnderline :: "Printer \<Rightarrow> Printer" where
  "SendUnderline p = Write (Sprintf_c [CHR 0x1B, CHR ''-''] (unat (p_underline p))) p"

definition SendEmphasize :: "Printer \<Rightarrow> Printer" where
  "SendEmphasize p = Write (Sprintf_c [CHR 0x1B, CHR ''G''] (unat (p_emphasize p))) p"

definition SendUpsidedown :: "Printer \<Rightarrow> Printer" where
  "SendUpsidedown p = Write (Sprintf_c [CHR 0x1B, CHR ''{''] (unat (p_upsidedown p))) p"

definition SendRotate :: "Printer \<Rightarrow> Printer" where
  "SendRotate p = Write (Sprintf_c [CHR 0x1B, CHR ''R''] (unat (p_rotate p))) p"

definition SendReverse :: "Printer \<Rightarrow> Printer" where
  "SendReverse p = Write (Sprintf_c [CHR 0x1D, CHR ''B''] (unat (p_reverse p))) p"

definition SendSmooth :: "Printer \<Rightarrow> Printer" where
  "SendSmooth p = Write (Sprintf_c [CHR 0x1D, CHR ''b''] (unat (p_smooth p))) p"

definition SendMoveX :: "uint16 \<Rightarrow> Printer \<Rightarrow> Printer" where
  "SendMoveX x p = Write [0x1B, 0x24, ucast (x mod 256), ucast (x div 256)] p"

definition SendMoveY :: "uint16 \<Rightarrow> Printer \<Rightarrow> Printer" where
  "SendMoveY y p = Write [0x1D, 0x24, ucast (y mod 256), ucast (y div 256)] p"

definition SetUnderline :: "byte \<Rightarrow> Printer \<Rightarrow> Printer" where
  "SetUnderline v p = SendUnderline (p\<lparr>p_underline := v\<rparr>)"

definition SetEmphasize :: "byte \<Rightarrow> Printer \<Rightarrow> Printer" where
  "SetEmphasize u p = SendEmphasize (p\<lparr>p_emphasize := u\<rparr>)"

definition SetUpsidedown :: "byte \<Rightarrow> Printer \<Rightarrow> Printer" where
  "SetUpsidedown v p = SendUpsidedown (p\<lparr>p_upsidedown := v\<rparr>)"

definition SetRotate :: "byte \<Rightarrow> Printer \<Rightarrow> Printer" where
  "SetRotate v p = SendRotate (p\<lparr>p_rotate := v\<rparr>)"

definition SetReverse :: "byte \<Rightarrow> Printer \<Rightarrow> Printer" where
  "SetReverse v p = SendReverse (p\<lparr>p_reverse := v\<rparr>)"

definition SetSmooth :: "byte \<Rightarrow> Printer \<Rightarrow> Printer" where
  "SetSmooth v p = SendSmooth (p\<lparr>p_smooth := v\<rparr>)"

definition Pulse :: "Printer \<Rightarrow> Printer" where
  "Pulse p = Write [0x1B, 0x70, 0x02] p"

definition SetAlign :: "string \<Rightarrow> Printer \<Rightarrow> Printer" where
  "SetAlign align p =
     (let a = (if align = ''left'' then 0 else if align = ''center'' then 1
               else if align = ''right'' then 2 else 0)
      in Write (Sprintf_c [CHR 0x1B, CHR ''a''] a) p)"

definition SetLang :: "string \<Rightarrow> Printer \<Rightarrow> Printer" where
  "SetLang lang p =
     (let l = (if lang = ''en'' then 0 else if lang = ''fr'' then 1 else if lang = ''de'' then 2
               else if lang = ''uk'' then 3 else if lang = ''da'' then 4
               else if lang = ''sv'' then 5 else if lang = ''it'' then 6
               else if lang = ''es'' then 7 else if lang = ''ja'' then 8
               else if lang = ''no'' then 9 else 0)
      in Write (Sprintf_c [CHR 0x1B, CHR ''R''] l) p)"

text \<open>
  What a call leaves behind is read off two ways: the buffers it handed to the
  destination, which are those the printer \<open>p'\<close> after the call has beyond those of the
  printer \<open>p\<close> before it, and the stored settings, which are the printer without its
  destination.
\<close>

definition emitted :: "Printer \<Rightarrow> Printer \<Rightarrow> byte list list" where
  "emitted p p' = drop (length (p_w p)) (p_w p')"

definition settings :: "Printer \<Rightarrow> Printer" where
  "settings p = p\<lparr>p_w := []\<rparr>"

text \<open>The font size is a pair of magnifications from 1 to 8.\<close>

definition font_size_ok :: "Printer \<Rightarrow> bool" where
  "font_size_ok p = (1 \<le> p_width p \<and> p_width p \<le> 8 \<and> 1 \<le> p_height p \<and> p_height p \<le> 8)"

section \<open>\<open>Text\<close>, \<open>Feed\<close> and \<open>Barcode\<close>\<close>

text \<open>
  \<open>WriteString\<close> hands the text to \<open>PrintTextImage\<close>, which renders it with a font file,
  stores a PNG and prints that through the raster converter of another package, and gives
  up silently when one of these steps fails; then it writes an empty buffer. What reaches
  the destination on the way depends on the files of the machine, so it is a parameter
  here: \<open>textImage s\<close> are the buffers written for the text \<open>s\<close>. The converter has the
  printer only to write through it.
\<close>

definition WriteString :: "(string \<Rightarrow> byte list list) \<Rightarrow> string \<Rightarrow> Printer \<Rightarrow> Printer" where
  "WriteString textImage s p = Write [] (p\<lparr>p_w := p_w p @ textImage s\<rparr>)"

text \<open>A toggle parameter is on when it is present with the value \<open>true\<close> or \<open>1\<close>.\<close>

definition toggle_on :: "string option \<Rightarrow> bool" where
  "toggle_on v = (case v of Some s \<Rightarrow> s = ''true'' \<or> s = ''1'' | None \<Rightarrow> False)"

definition Text_styles :: "(string \<rightharpoonup> string) \<Rightarrow> Printer \<Rightarrow> Printer" where
  "Text_styles params p0 =
     (let p1 = (case params ''align'' of Some align \<Rightarrow> SetAlign align p0 | None \<Rightarrow> p0);
          p2 = (case params ''lang'' of Some lang \<Rightarrow> SetLang lang p1 | None \<Rightarrow> p1);
          p3 = (if toggle_on (params ''smooth'') then SetSmooth 1 p2 else p2);
          p4 = (if toggle_on (params ''em'') then SetEmphasize 1 p3 else p3);
          p5 = (if toggle_on (params ''ul'') then SetUnderline 1 p4 else p4);
          p6 = (if toggle_on (params ''reverse'') then SetReverse 1 p5 else p5);
          p7 = (if toggle_on (params ''rotate'') then SetRotate 1 p6 else p6)
      in p7)"

text \<open>\<open>font[5:6]\<close> panics on a font parameter of fewer than six bytes.\<close>

definition Text_font :: "(string \<rightharpoonup> string) \<Rightarrow> Printer \<Rightarrow> panic option \<times> Printer" where
  "Text_font params p =
     (case params ''font'' of
        Some font \<Rightarrow>
          if length font < 6 then (Some SliceBoundsOutOfRange, p)
          else (None, SetFont (ToUpper_byte (font ! 5)) p)
      | None \<Rightarrow> (None, p))"

definition Text_double :: "(string \<rightharpoonup> string) \<Rightarrow> Printer \<Rightarrow> Printer" where
  "Text_double params p0 =
     (let p1 = (if toggle_on (params ''dw'') then SetFontSize 2 (p_height p0) p0 else p0);
          p2 = (if toggle_on (params ''dh'') then SetFontSize (p_width p1) 2 p1 else p1)
      in p2)"

text \<open>
  The four numeric parameters, in the order of the code. Each gives \<open>Some err\<close> when
  \<open>Atoi\<close> fails, which \<open>Text\<close> returns at once.
\<close>

definition Text_width :: "(string \<rightharpoonup> string) \<Rightarrow> Printer \<Rightarrow> error option \<times> Printer" where
  "Text_width params p =
     (case params ''width'' of
        Some width \<Rightarrow>
          (case Atoi width of
             Inr i \<Rightarrow> (None, SetFontSize (to_byte i) (p_height p) p)
           | Inl err \<Rightarrow> (Some err, p))
      | None \<Rightarrow> (None, p))"

definition Text_height :: "(string \<rightharpoonup> string) \<Rightarrow> Printer \<Rightarrow> error option \<times> Printer" where
  "Text_height params p =
     (case params ''height'' of
        Some height \<Rightarrow>
          (case Atoi height of
             Inr i \<Rightarrow> (None, SetFontSize (p_width p) (to_byte i) p)
           | Inl err \<Rightarrow> (Some err, p))
      | None \<Rightarrow> (None, p))"

definition Text_x :: "(string \<rightharpoonup> string) \<Rightarrow> Printer \<Rightarrow> error option \<times> Printer" where
  "Text_x params p =
     (case params ''x'' of
        Some x \<Rightarrow>
          (case Atoi x of
             Inr i \<Rightarrow> (None, SendMoveX (to_uint16 i) p)
           | Inl err \<Rightarrow> (Some err, p))
      | None \<Rightarrow> (None, p))"

definition Text_y :: "(string \<rightharpoonup> string) \<Rightarrow> Printer \<Rightarrow> error option \<times> Printer" where
  "Text_y params p =
     (case params ''y'' of
        Some y \<Rightarrow>
          (case Atoi y of
             Inr i \<Rightarrow> (None, SendMoveY (to_uint16 i) p)
           | Inl err \<Rightarrow> (Some err, p))
      | None \<Rightarrow> (None, p))"

text \<open>
  \<open>Text\<close> returns \<open>Return None\<close> for \<open>nil\<close>, \<open>Return (Some err)\<close> for an error, or panics;
  the printer beside the result is the printer at that moment.
\<close>

definition Text ::
  "(string \<Rightarrow> byte list list) \<Rightarrow> (string \<rightharpoonup> string) \<Rightarrow> string \<Rightarrow> Printer
   \<Rightarrow> error option outcome \<times> Printer" where
  "Text textImage params text p0 =
     (case Text_font params (Text_styles params p0) of
        (Some pn, p1) \<Rightarrow> (Panic pn, p1)
      | (None, p1) \<Rightarrow>
     (case Text_width params (Text_double params p1) of
        (Some err, p2) \<Rightarrow> (Return (Some err), p2)
      | (None, p2) \<Rightarrow>
     (case Text_height params p2 of
        (Some err, p3) \<Rightarrow> (Return (Some err), p3)
      | (None, p3) \<Rightarrow>
     (case Text_x params p3 of
        (Some err, p4) \<Rightarrow> (Return (Some err), p4)
      | (None, p4) \<Rightarrow>
     (case Text_y params p4 of
        (Some err, p5) \<Rightarrow> (Return (Some err), p5)
      | (None, p5) \<Rightarrow>
          (Return None,
           if 0 < length text then WriteString textImage (Replace textReplacer text) p5
           else p5))))))"

text \<open>
  For the statements about \<open>Text\<close>: the numeric parameters in the order \<open>Text\<close> comes to
  them, the parameters it handles before them, the parameters it handles before the
  numeric parameter \<open>k\<close>, and the error of a numeric parameter, which is the error of
  \<open>Atoi\<close> when the parameter is present and no integer.
\<close>

definition numeric_keys :: "string list" where
  "numeric_keys = [''width'', ''height'', ''x'', ''y'']"

definition style_keys :: "string list" where
  "style_keys = [''align'', ''lang'', ''smooth'', ''em'', ''ul'', ''reverse'', ''rotate'',
                 ''font'', ''dw'', ''dh'']"

definition keys_before :: "string \<Rightarrow> string set" where
  "keys_before k = set style_keys \<union> set (takeWhile (\<lambda>j. j \<noteq> k) numeric_keys)"

definition numeric_error :: "(string \<rightharpoonup> string) \<Rightarrow> string \<Rightarrow> error option" where
  "numeric_error params k =
     (case params k of
        Some v \<Rightarrow> (case Atoi v of Inl err \<Rightarrow> Some err | Inr i \<Rightarrow> None)
      | None \<Rightarrow> None)"

definition Feed :: "(string \<rightharpoonup> string) \<Rightarrow> Printer \<Rightarrow> error option \<times> Printer" where
  "Feed params p0 =
     (case (case params ''line'' of
              Some l \<Rightarrow>
                (case Atoi l of
                   Inr i \<Rightarrow> (None, FormfeedN i p0)
                 | Inl err \<Rightarrow> (Some err, p0))
            | None \<Rightarrow> (None, p0)) of
        (Some err, p1) \<Rightarrow> (Some err, p1)
      | (None, p1) \<Rightarrow>
     (case (case params ''unit'' of
              Some u \<Rightarrow>
                (case Atoi u of
                   Inr i \<Rightarrow> (None, SendMoveY (to_uint16 i) p1)
                 | Inl err \<Rightarrow> (Some err, p1))
            | None \<Rightarrow> (None, p1)) of
        (Some err, p2) \<Rightarrow> (Some err, p2)
      | (None, p2) \<Rightarrow>
          (let p3 = Reset (Linefeed p2);
               p4 = SendSmooth (SendRotate (SendEmphasize p3));
               p5 = SendUpsidedown (SendUnderline (SendReverse p4));
               p6 = SendUnderline (SendFontSize p5)
           in (None, p6))))"

definition FeedAndCut :: "(string \<rightharpoonup> string) \<Rightarrow> Printer \<Rightarrow> Printer" where
  "FeedAndCut params p =
     Cut (if params ''type'' = Some ''feed'' then Formfeed p else p)"

text \<open>
  \<open>Barcode\<close>: the symbology byte \<open>code\<close> is empty for a format the \<open>switch\<close> does not list.
  The first \<open>Sprintf\<close> writes \<open>len(barcode)\<close> in decimal and the barcode, the second the
  barcode and a NUL; the last write is outside both branches.
\<close>

definition Barcode_code :: "go_int \<Rightarrow> string" where
  "Barcode_code format =
     (if format = 0 then [CHR 0x00]
      else if format = 1 then [CHR 0x01]
      else if format = 2 then [CHR 0x02]
      else if format = 3 then [CHR 0x03]
      else if format = 4 then [CHR 0x04]
      else if format = 73 then [CHR 0x49]
      else [])"

definition Barcode :: "string \<Rightarrow> go_int \<Rightarrow> Printer \<Rightarrow> Printer" where
  "Barcode barcode format p0 =
     (let code = Barcode_code format;
          p1 = SetAlign ''center'' (Reset p0);
          p2 = (if 69 <s format
                then Write (bytes_of ([CHR 0x1D, CHR ''k''] @ code
                              @ decimal (length barcode) @ barcode)) p1
                else if format <s 69
                then Write (bytes_of ([CHR 0x1D, CHR ''k''] @ code @ barcode @ [CHR 0x00])) p1
                else p1)
      in Write (bytes_of barcode) p2)"

definition gSend :: "byte \<Rightarrow> byte \<Rightarrow> byte list \<Rightarrow> Printer \<Rightarrow> Printer" where
  "gSend m fn data p =
     (let l = (of_nat (length data) + 2 :: go_int)
      in Write data
           (Write [to_byte (go_mod l 256), to_byte (go_div l 256), m, fn]
              (Write [0x1B, 0x28, 0x4C] p)))"

section \<open>raster.go: \<open>Raster\<close>\<close>

text \<open>
  The number of lines of the chunk that starts at line \<open>l\<close>: \<open>gs8lMaxY\<close>, or \<open>height - l\<close>
  when that is less.
\<close>

definition Raster_lines :: "go_int \<Rightarrow> go_int \<Rightarrow> go_int" where
  "Raster_lines height l = (if height - l <s gs8lMaxY then height - l else gs8lMaxY)"

definition Raster_header :: "go_int \<Rightarrow> go_int \<Rightarrow> go_int \<Rightarrow> byte list" where
  "Raster_header width lineWidth lines =
     (let f112P = 10 + lines * lineWidth
      in [0x1D, 0x38, 0x4C,
          to_byte f112P, to_byte (signed_drop_bit 8 f112P),
          to_byte (signed_drop_bit 16 f112P), to_byte (signed_drop_bit 24 f112P),
          0x30, 0x70, 0x30,
          0x01, 0x01,
          0x31,
          to_byte width, to_byte (signed_drop_bit 8 width),
          to_byte lines, to_byte (signed_drop_bit 8 lines)])"

definition Raster_flush :: "byte list" where
  "Raster_flush = [0x1D, 0x28, 0x4C, 0x02, 0x00, 0x30, 0x32]"

text \<open>
  The loop of the graphics mode, from line \<open>l\<close> on. The header of a chunk is written
  before the slice expression for its lines is evaluated, so a panic of that expression
  leaves the header written.
\<close>

function Raster_graphics ::
  "go_int \<Rightarrow> go_int \<Rightarrow> go_int \<Rightarrow> byte_slice \<Rightarrow> go_int \<Rightarrow> Printer \<Rightarrow> unit outcome \<times> Printer" where
  "Raster_graphics width height lineWidth imgBw l p =
     (if l <s height
      then let lines = Raster_lines height l;
               p1 = Write (Raster_header width lineWidth lines) p
           in (case reslice imgBw (l * lineWidth) ((l + lines) * lineWidth) of
                 None \<Rightarrow> (Panic SliceBoundsOutOfRange, p1)
               | Some rows \<Rightarrow>
                   Raster_graphics width height lineWidth imgBw (l + lines)
                     (Write Raster_flush (Write (contents rows) p1)))
      else (Return (), p))"
  by pat_completeness auto

definition Raster ::
  "go_int \<Rightarrow> go_int \<Rightarrow> go_int \<Rightarrow> byte_slice \<Rightarrow> string \<Rightarrow> Printer \<Rightarrow> unit outcome \<times> Printer" where
  "Raster width height lineWidth imgBw printingType p =
     (if printingType = ''bitImage''
      then let header = [0x1D, 0x76, 0x30] @ [0]
                 @ intLowHigh (signed_drop_bit 3 (width + 7)) 2 @ intLowHigh height 2
           in (Return (), Write (header @ contents imgBw) p)
      else if printingType = ''graphics''
      then Raster_graphics width height lineWidth imgBw 0 p
      else (Return (), p))"

text \<open>
  The chunks the loop goes through when no slice expression panics: the pairs of the
  first line \<open>l\<close> and the number of lines of every pass, in the order of the passes.
\<close>

function Raster_chunks :: "go_int \<Rightarrow> go_int \<Rightarrow> (go_int \<times> go_int) list" where
  "Raster_chunks height l =
     (if l <s height
      then (l, Raster_lines height l) # Raster_chunks height (l + Raster_lines height l)
      else [])"
  by pat_completeness auto

text \<open>The chunks of an image of \<open>height\<close> lines, read as integers: first line and line count.\<close>

definition chunk_rows :: "go_int \<Rightarrow> (int \<times> int) list" where
  "chunk_rows height = map (\<lambda>(l, lines). (sint l, sint lines)) (Raster_chunks height 0)"

text \<open>
  Row ranges \<open>(first, count)\<close> that follow one another from row \<open>s\<close> to row \<open>e\<close>: every range
  is not empty and starts where the one before ends.
\<close>

fun consecutive :: "int \<Rightarrow> (int \<times> int) list \<Rightarrow> int \<Rightarrow> bool" where
  "consecutive s [] e = (s = e)"
| "consecutive s ((a, n) # cs) e = (a = s \<and> 0 < n \<and> consecutive (s + n) cs e)"

text \<open>The three buffers written for the chunk of \<open>lines\<close> lines from line \<open>l\<close>.\<close>

definition chunk_writes :: "go_int \<Rightarrow> go_int \<Rightarrow> byte_slice \<Rightarrow> go_int \<times> go_int \<Rightarrow> byte list list" where
  "chunk_writes width lineWidth imgBw c =
     (case c of (l, lines) \<Rightarrow>
        [Raster_header width lineWidth lines,
         take (nat (sint lines * sint lineWidth)) (drop (nat (sint l * sint lineWidth)) (backing imgBw)),
         Raster_flush])"

text \<open>
  Whether the slice expression of a chunk is within the bounds of the buffer, and the
  three buffers a pass of the loop writes for a chunk whose slice expression is: the
  header, the contents of the slice, the flush command.
\<close>

definition chunk_in_bounds :: "go_int \<Rightarrow> byte_slice \<Rightarrow> go_int \<times> go_int \<Rightarrow> bool" where
  "chunk_in_bounds lineWidth imgBw c =
     (case c of (l, lines) \<Rightarrow>
        reslice imgBw (l * lineWidth) ((l + lines) * lineWidth) \<noteq> None)"

definition chunk_buffers :: "go_int \<Rightarrow> go_int \<Rightarrow> byte_slice \<Rightarrow> go_int \<times> go_int \<Rightarrow> byte list list" where
  "chunk_buffers width lineWidth imgBw c =
     (case c of (l, lines) \<Rightarrow>
        [Raster_header width lineWidth lines,
         (case reslice imgBw (l * lineWidth) ((l + lines) * lineWidth) of
            Some rows \<Rightarrow> contents rows
          | None \<Rightarrow> []),
         Raster_flush])"

section \<open>Sequences of operations\<close>

datatype op =
    OpReset | OpInit | OpEnd | OpCut | OpCash | OpLinefeed | OpFormfeed | OpPulse
  | OpFormfeedN go_int
  | OpWrite "byte list"
  | OpSetFont string | OpSetAlign string | OpSetLang string
  | OpSendFontSize | OpSendUnderline | OpSendEmphasize | OpSendUpsidedown
  | OpSendRotate | OpSendReverse | OpSendSmooth
  | OpSendMoveX uint16 | OpSendMoveY uint16
  | OpSetFontSize byte byte
  | OpSetUnderline byte | OpSetEmphasize byte | OpSetUpsidedown byte
  | OpSetRotate byte | OpSetReverse byte | OpSetSmooth byte
  | OpText "string \<rightharpoonup> string" string
  | OpFeed "string \<rightharpoonup> string"
  | OpFeedAndCut "string \<rightharpoonup> string"
  | OpBarcode string go_int
  | OpRaster go_int go_int go_int byte_slice string

text \<open>
  The printer after one call. After a panic or an error it is the printer the call left
  behind, which a caller that recovers goes on with.
\<close>

fun exec :: "(string \<Rightarrow> byte list list) \<Rightarrow> op \<Rightarrow> Printer \<Rightarrow> Printer" where
  "exec ti OpReset p = Reset p"
| "exec ti OpInit p = Init p"
| "exec ti OpEnd p = End p"
| "exec ti OpCut p = Cut p"
| "exec ti OpCash p = Cash p"
| "exec ti OpLinefeed p = Linefeed p"
| "exec ti OpFormfeed p = Formfeed p"
| "exec ti OpPulse p = Pulse p"
| "exec ti (OpFormfeedN n) p = FormfeedN n p"
| "exec ti (OpWrite buf) p = Write buf p"
| "exec ti (OpSetFont font) p = SetFont font p"
| "exec ti (OpSetAlign align) p = SetAlign align p"
| "exec ti (OpSetLang lang) p = SetLang lang p"
| "exec ti OpSendFontSize p = SendFontSize p"
| "exec ti OpSendUnderline p = SendUnderline p"
| "exec ti OpSendEmphasize p = SendEmphasize p"
| "exec ti OpSendUpsidedown p = SendUpsidedown p"
| "exec ti OpSendRotate p = SendRotate p"
| "exec ti OpSendReverse p = SendReverse p"
| "exec ti OpSendSmooth p = SendSmooth p"
| "exec ti (OpSendMoveX x) p = SendMoveX x p"
| "exec ti (OpSendMoveY y) p = SendMoveY y p"
| "exec ti (OpSetFontSize width height) p = SetFontSize width height p"
| "exec ti (OpSetUnderline v) p = SetUnderline v p"
| "exec ti (OpSetEmphasize u) p = SetEmphasize u p"
| "exec ti (OpSetUpsidedown v) p = SetUpsidedown v p"
| "exec ti (OpSetRotate v) p = SetRotate v p"
| "exec ti (OpSetReverse v) p = SetReverse v p"
| "exec ti (OpSetSmooth v) p = SetSmooth v p"
| "exec ti (OpText params text) p = snd (Text ti params text p)"
| "exec ti (OpFeed params) p = snd (Feed params p)"
| "exec ti (OpFeedAndCut params) p = FeedAndCut params p"
| "exec ti (OpBarcode barcode format) p = Barcode barcode format p"
| "exec ti (OpRaster width height lineWidth imgBw printingType) p =
     snd (Raster width height lineWidth imgBw printingType p)"

fun run :: "(string \<Rightarrow> byte list list) \<Rightarrow> op list \<Rightarrow> Printer \<Rightarrow> Printer" where
  "run ti [] p = p"
| "run ti (c # cs) p = run ti cs (exec ti c p)"

section \<open>Arithmetic of 64-bit integers\<close>

lemma sint_go_int_bounds:
  "- 9223372036854775808 \<le> sint (x::go_int) \<and> sint x < 9223372036854775808"
  using sint_ge [of x] sint_lt [of x] by simp

lemma sint_wi64:
  "- 9223372036854775808 \<le> k \<Longrightarrow> k < 9223372036854775808 \<Longrightarrow> sint (word_of_int k :: go_int) = k"
  by (simp add: sint_sbintrunc' signed_take_bit_int_eq_self)

lemma sint_add64:
  "- 9223372036854775808 \<le> sint a + sint b \<Longrightarrow> sint a + sint b < 9223372036854775808
   \<Longrightarrow> sint (a + b :: go_int) = sint a + sint b"
  by (simp add: sint_word_ariths signed_take_bit_int_eq_self)

lemma sint_sub64:
  "- 9223372036854775808 \<le> sint a - sint b \<Longrightarrow> sint a - sint b < 9223372036854775808
   \<Longrightarrow> sint (a - b :: go_int) = sint a - sint b"
  by (simp add: sint_word_ariths signed_take_bit_int_eq_self)

lemma sint_mul64:
  "- 9223372036854775808 \<le> sint a * sint b \<Longrightarrow> sint a * sint b < 9223372036854775808
   \<Longrightarrow> sint (a * b :: go_int) = sint a * sint b"
  by (simp add: sint_word_ariths signed_take_bit_int_eq_self)

lemma sint_succ: "(i::go_int) <s n \<Longrightarrow> sint (i + 1) = sint i + 1"
  using sint_go_int_bounds [of i] sint_go_int_bounds [of n] sint_add64 [of i 1]
  by (simp add: word_sless_alt)

lemma sdiv_nonneg: "0 \<le> k \<Longrightarrow> 0 < l \<Longrightarrow> (k::int) sdiv l = k div l"
  by (cases "k = 0") (simp_all add: signed_divide_int_def)

lemma smod_nonneg: "0 \<le> k \<Longrightarrow> 0 < l \<Longrightarrow> (k::int) smod l = k mod l"
  by (cases "k = 0") (simp_all add: signed_modulo_int_def)

lemma go_div_256_nonneg:
  assumes a: "0 \<le> sint a"
  shows "sint (go_div a 256) = sint a div 256"
proof -
  have 1: "sint a div 256 \<le> sint a" using a by simp
  have 2: "0 \<le> sint a div 256" using a by simp
  have 3: "sint (word_of_int (sint a div 256) :: go_int) = sint a div 256"
    by (rule sint_wi64) (use 1 2 sint_go_int_bounds [of a] in linarith)+
  have 4: "sint a sdiv 256 = sint a div 256" using a by (rule sdiv_nonneg) simp
  have 5: "sint (256 :: go_int) = 256" by simp
  show ?thesis
    by (simp only: go_div_def 3 4 5)
qed

lemma ucast_wi_byte: "(ucast (word_of_int k :: go_int) :: byte) = word_of_int k"
  by transfer (simp add: min_def)

lemma go_mod_256_byte: "to_byte (go_mod a 256) = word_of_int (sint a smod 256)"
  unfolding go_mod_def to_byte_def by (simp only: ucast_wi_byte sint_numeral) simp

lemma go_mod_256_nonneg: "0 \<le> sint a \<Longrightarrow> to_byte (go_mod a 256) = word_of_int (sint a mod 256)"
  by (simp add: go_mod_256_byte smod_nonneg)

lemma sint_sub_cases:
  "sint (a - b :: go_int) = sint a - sint b
   \<or> sint (a - b) = sint a - sint b - 18446744073709551616
   \<or> sint (a - b) = sint a - sint b + 18446744073709551616"
proof -
  have "(word_of_int (sint (a - b)) :: go_int) = word_of_int (sint a - sint b)"
    by simp
  then have "take_bit 64 (sint (a - b)) = take_bit 64 (sint a - sint b)"
    by (simp only: word_of_int_eq_iff) simp
  then have "sint (a - b) mod 18446744073709551616 = (sint a - sint b) mod 18446744073709551616"
    by (simp add: take_bit_eq_mod)
  then have "18446744073709551616 dvd (sint (a - b) - (sint a - sint b))"
    by (simp only: mod_eq_dvd_iff)
  then obtain k where k: "sint (a - b) - (sint a - sint b) = 18446744073709551616 * k"
    by (auto simp: dvd_def)
  have "- 2 < k \<and> k < 2"
    using k sint_go_int_bounds [of a] sint_go_int_bounds [of b] sint_go_int_bounds [of "a - b"]
    by linarith
  then have "k = - 1 \<or> k = 0 \<or> k = 1" by linarith
  then show ?thesis using k by auto
qed

text \<open>
  One pass of the loop of \<open>Raster\<close> moves \<open>l\<close> forward and not beyond \<open>height\<close>, whatever
  \<open>l\<close> is: when \<open>height - l\<close> wraps around, it is negative, the chunk takes \<open>height - l\<close>
  lines and the next \<open>l\<close> is \<open>height\<close>.
\<close>

lemma Raster_lines_step:
  assumes "l <s height"
  shows "sint l < sint (l + Raster_lines height l)
         \<and> sint (l + Raster_lines height l) \<le> sint height"
proof (cases "height - l <s gs8lMaxY")
  case True
  then have "l + Raster_lines height l = height" by (simp add: Raster_lines_def)
  then show ?thesis using assms by (simp add: word_sless_alt)
next
  case False
  then have ge: "1662 \<le> sint (height - l)" by (simp add: word_sless_alt gs8lMaxY_def)
  have lt: "sint l < sint height" using assms by (simp add: word_sless_alt)
  have d: "1662 \<le> sint height - sint l"
    using sint_sub_cases [of height l] ge lt sint_go_int_bounds [of "height - l"]
      sint_go_int_bounds [of height] sint_go_int_bounds [of l]
    by linarith
  have "sint (l + 1662) = sint l + sint (1662 :: go_int)"
    by (rule sint_add64) (use d sint_go_int_bounds [of height] sint_go_int_bounds [of l] in simp_all)
  then show ?thesis using False d by (simp add: Raster_lines_def gs8lMaxY_def)
qed

section \<open>Termination of the loops\<close>

termination intLowHigh_loop
  apply (relation "measure (\<lambda>(inpNumber, outBytes, i, outp). nat (sint outBytes - sint i))")
   apply simp
  apply (simp add: sint_succ word_sless_alt)
  done

declare intLowHigh_loop.simps [simp del]

termination Raster_chunks
  apply (relation "measure (\<lambda>(height, l). nat (sint height - sint l))")
   apply simp
  using Raster_lines_step apply fastforce
  done

declare Raster_chunks.simps [simp del]

termination Raster_graphics
  apply (relation "measure (\<lambda>(width, height, lineWidth, imgBw, l, p). nat (sint height - sint l))")
   apply simp
  using Raster_lines_step apply fastforce
  done

declare Raster_graphics.simps [simp del]

section \<open>\<open>intLowHigh\<close> is the little-endian encoding\<close>

lemma intLowHigh_loop_nonneg:
  "0 \<le> sint x \<Longrightarrow>
   intLowHigh_loop x n i outp =
     outp @ map (\<lambda>j. word_of_int (sint x div 256 ^ j mod 256)) [0..<nat (sint n - sint i)]"
proof (induction x n i outp rule: intLowHigh_loop.induct)
  case (1 x n i outp)
  show ?case
  proof (cases "i <s n")
    case False
    then show ?thesis
      by (simp add: intLowHigh_loop.simps [of x n i] word_sless_alt)
  next
    case True
    have nn: "0 \<le> sint (go_div x 256)"
      using "1.prems" by (simp add: go_div_256_nonneg)
    have len: "nat (sint n - sint i) = Suc (nat (sint n - sint (i + 1)))"
      using True sint_succ [OF True] by (simp add: word_sless_alt)
    have IH: "intLowHigh_loop (go_div x 256) n (i + 1) (outp @ [to_byte (go_mod x 256)]) =
        (outp @ [to_byte (go_mod x 256)]) @
        map (\<lambda>j. word_of_int (sint (go_div x 256) div 256 ^ j mod 256)) [0..<nat (sint n - sint (i + 1))]"
      using "1.IH" [OF True nn] .
    have shift: "map (\<lambda>j. word_of_int (sint x div 256 ^ j mod 256) :: byte) [0..<Suc m] =
        word_of_int (sint x mod 256) # map (\<lambda>j. word_of_int (sint x div 256 div 256 ^ j mod 256)) [0..<m]" for m
      by (simp add: upt_rec [of 0] map_Suc_upt [symmetric] zdiv_zmult2_eq del: upt_Suc)
    have "intLowHigh_loop x n i outp =
        intLowHigh_loop (go_div x 256) n (i + 1) (outp @ [to_byte (go_mod x 256)])"
      using True by (simp add: intLowHigh_loop.simps [of x n i])
    also note IH
    finally show ?thesis
      using "1.prems"
      by (simp add: len shift go_div_256_nonneg go_mod_256_nonneg del: upt_Suc)
  qed
qed

lemma unat_wi_byte: "0 \<le> k \<Longrightarrow> unat (word_of_int (k mod 256) :: byte) = nat k mod 256"
  by (simp add: unat_eq_nat_uint uint_word_of_int take_bit_eq_mod nat_mod_distrib)

lemma intLowHigh_digits:
  assumes "0 \<le> sint x"
  shows "map unat (intLowHigh x n) = le_digits (nat (sint n)) (nat (sint x))"
proof -
  have "unat (word_of_int (sint x div 256 ^ j mod 256) :: byte) = nat (sint x) div 256 ^ j mod 256" for j
  proof -
    have "0 \<le> sint x div 256 ^ j" using assms by (simp add: pos_imp_zdiv_nonneg_iff)
    then have "unat (word_of_int (sint x div 256 ^ j mod 256) :: byte) = nat (sint x div 256 ^ j) mod 256"
      by (rule unat_wi_byte)
    also have "nat (sint x div 256 ^ j) = nat (sint x) div 256 ^ j"
      using assms by (simp add: nat_div_distrib nat_power_eq)
    finally show ?thesis .
  qed
  then show ?thesis
    using assms by (simp add: intLowHigh_def intLowHigh_loop_nonneg le_digits_def)
qed

lemma le_digits_Suc: "le_digits (Suc k) n = n mod 256 # le_digits k (n div 256)"
  by (simp add: le_digits_def upt_rec [of 0] map_Suc_upt [symmetric] div_mult2_eq del: upt_Suc)

lemma le_value_digits: "le_value (le_digits k n) = n mod 256 ^ k"
proof (induction k arbitrary: n)
  case 0
  show ?case by (simp add: le_digits_def)
next
  case (Suc k)
  have "n mod (256 * 256 ^ k) = 256 * (n div 256 mod 256 ^ k) + n mod 256"
    by (rule mod_mult2_eq)
  then show ?case by (simp add: le_digits_Suc Suc)
qed

lemma le_digits_0: "le_digits 0 n = []"
  by (simp add: le_digits_def)

lemma le_digits_2: "le_digits 2 n = [n mod 256, n div 256 mod 256]"
proof -
  have e: "(2::nat) = Suc (Suc 0)" by simp
  show ?thesis by (simp only: e le_digits_Suc le_digits_0)
qed

lemma le_digits_4:
  "le_digits 4 n = [n mod 256, n div 256 mod 256, n div 65536 mod 256, n div 16777216 mod 256]"
proof -
  have e: "(4::nat) = Suc (Suc (Suc (Suc 0)))" by simp
  have "le_digits 4 n = [n mod 256, n div 256 mod 256, n div 256 div 256 mod 256,
      n div 256 div 256 div 256 mod 256]"
    by (simp only: e le_digits_Suc le_digits_0)
  moreover have "n div 256 div 256 = n div 65536"
    using div_mult2_eq [of n 256 256] by simp
  moreover have "n div 256 div 256 div 256 = n div 16777216"
    using div_mult2_eq [of n 65536 256] div_mult2_eq [of n 256 256] by simp
  ultimately show ?thesis by simp
qed

lemma inj_unat: "inj (unat :: 'a::len word \<Rightarrow> nat)"
  by (rule injI) (simp add: word_unat_eq_iff)

text \<open>
  Claim C3. For every \<open>inpNumber \<ge> 0\<close> and every \<open>outBytes\<close> from 1 to 4,
  \<open>intLowHigh inpNumber outBytes\<close> returns exactly \<open>outBytes\<close> bytes, the little-endian
  base-256 digits of \<open>inpNumber\<close>; they stand for \<open>inpNumber mod 256 ^ outBytes\<close>, which is
  \<open>inpNumber\<close> itself when it is below \<open>256 ^ outBytes\<close>, and a larger \<open>inpNumber\<close> is cut
  to its low \<open>outBytes\<close> bytes and not refused. For \<open>inpNumber = 0\<close> the bytes are all zero.
\<close>

theorem intLowHigh_little_endian:
  assumes "0 \<le>s inpNumber" and "1 \<le>s outBytes" and "outBytes \<le>s 4"
  shows "length (intLowHigh inpNumber outBytes) = nat (sint outBytes)
       \<and> map unat (intLowHigh inpNumber outBytes)
           = le_digits (nat (sint outBytes)) (nat (sint inpNumber))
       \<and> le_value (map unat (intLowHigh inpNumber outBytes))
           = nat (sint inpNumber) mod 256 ^ nat (sint outBytes)
       \<and> (sint inpNumber < 256 ^ nat (sint outBytes)
            \<longrightarrow> le_value (map unat (intLowHigh inpNumber outBytes)) = nat (sint inpNumber))
       \<and> (inpNumber = 0 \<longrightarrow> intLowHigh inpNumber outBytes = replicate (nat (sint outBytes)) 0)"
proof -
  have nn: "0 \<le> sint inpNumber"
    using assms(1) by (simp add: word_sle_eq)
  have digits: "map unat (intLowHigh inpNumber outBytes)
      = le_digits (nat (sint outBytes)) (nat (sint inpNumber))"
    using nn by (rule intLowHigh_digits)
  have len: "length (intLowHigh inpNumber outBytes) = nat (sint outBytes)"
    using arg_cong [OF digits, of length] by (simp add: le_digits_def)
  have val: "le_value (map unat (intLowHigh inpNumber outBytes))
      = nat (sint inpNumber) mod 256 ^ nat (sint outBytes)"
    by (simp only: digits le_value_digits)
  have small: "le_value (map unat (intLowHigh inpNumber outBytes)) = nat (sint inpNumber)"
    if "sint inpNumber < 256 ^ nat (sint outBytes)"
  proof -
    have "nat (sint inpNumber) < 256 ^ nat (sint outBytes)"
      using that nn by (simp add: nat_less_iff)
    then show ?thesis by (simp add: val)
  qed
  have zero: "intLowHigh inpNumber outBytes = replicate (nat (sint outBytes)) 0"
    if "inpNumber = 0"
  proof -
    have "map unat (intLowHigh 0 outBytes) = map unat (replicate (nat (sint outBytes)) (0 :: byte))"
      using intLowHigh_digits [of 0 outBytes]
      by (simp add: le_digits_def map_replicate_const)
    then show ?thesis
      using that by (simp add: inj_map_eq_map [OF inj_unat] del: map_replicate)
  qed
  show ?thesis using len digits val small zero by blast
qed

text \<open>
  Instances: 300 in two bytes is \<open>2C 01\<close>, 0 in three bytes is three zero bytes, and
  70000, too large for two bytes, comes out as its low two bytes \<open>70 11\<close>.
\<close>

theorem intLowHigh_little_endian_witness:
  "(0 :: go_int) \<le>s 300 \<and> (1 :: go_int) \<le>s 2 \<and> (2 :: go_int) \<le>s 4
   \<and> intLowHigh 300 2 = [0x2C, 0x01]
   \<and> le_value (map unat (intLowHigh 300 2)) = 300
   \<and> (0 :: go_int) \<le>s 0 \<and> (1 :: go_int) \<le>s 3 \<and> (3 :: go_int) \<le>s 4
   \<and> intLowHigh 0 3 = [0x00, 0x00, 0x00]
   \<and> (0 :: go_int) \<le>s 70000
   \<and> map unat (intLowHigh 70000 2) = [0x70, 0x11]
   \<and> le_value (map unat (intLowHigh 70000 2)) = 70000 mod 65536"
proof -
  have h: "(0 :: go_int) \<le>s 300" "(1 :: go_int) \<le>s 2" "(2 :: go_int) \<le>s 4"
    by (simp_all add: word_sle_eq)
  have d: "map unat (intLowHigh 300 2) = map unat [0x2C, 0x01 :: byte]"
  proof -
    have "le_digits 2 300 = [44, 1]" by (simp add: le_digits_2)
    then show ?thesis using intLowHigh_little_endian [OF h] by simp
  qed
  have a: "intLowHigh 300 2 = [0x2C, 0x01]"
    using d by (simp only: inj_map_eq_map [OF inj_unat])
  have b: "le_value (map unat (intLowHigh 300 2)) = 300"
    using d by simp
  have z: "(0 :: go_int) \<le>s 0" "(1 :: go_int) \<le>s 3" "(3 :: go_int) \<le>s 4"
    by (simp_all add: word_sle_eq)
  have s3: "nat (sint (3 :: go_int)) = Suc (Suc (Suc 0))" by simp
  have "intLowHigh 0 3 = replicate (nat (sint (3 :: go_int))) 0"
    using intLowHigh_little_endian [OF z] by blast
  then have c: "intLowHigh 0 3 = [0x00, 0x00, 0x00]"
    by (simp only: s3 replicate.simps)
  have t: "(0 :: go_int) \<le>s 70000"
    by (simp add: word_sle_eq)
  have s2: "nat (sint (2 :: go_int)) = 2" "nat (sint (70000 :: go_int)) = 70000" by simp_all
  have l2: "le_digits 2 70000 = [0x70, 0x11]" by (simp add: le_digits_2)
  have "map unat (intLowHigh 70000 2) = le_digits (nat (sint (2 :: go_int))) (nat (sint (70000 :: go_int)))"
    and "le_value (map unat (intLowHigh 70000 2))
      = nat (sint (70000 :: go_int)) mod 256 ^ nat (sint (2 :: go_int))"
    using intLowHigh_little_endian [OF t h(2,3)] by blast+
  then have e: "map unat (intLowHigh 70000 2) = [0x70, 0x11]"
    and f: "le_value (map unat (intLowHigh 70000 2)) = 70000 mod 65536"
    by (simp_all only: s2 l2) simp_all
  show ?thesis
    by (intro conjI) (rule h z t a b c e f)+
qed

section \<open>The chunks of \<open>Raster\<close> partition the lines\<close>

lemma Raster_lines_value:
  assumes "0 \<le> sint l" and "l <s height"
  shows "sint (Raster_lines height l) = min 1662 (sint height - sint l)"
    and "sint (l + Raster_lines height l) = sint l + min 1662 (sint height - sint l)"
proof -
  have lt: "sint l < sint height" using assms(2) by (simp add: word_sless_alt)
  have d: "sint (height - l) = sint height - sint l"
    by (rule sint_sub64) (use lt assms(1) sint_go_int_bounds [of height] in linarith)+
  show 1: "sint (Raster_lines height l) = min 1662 (sint height - sint l)"
    by (simp add: Raster_lines_def gs8lMaxY_def word_sless_alt d)
  have "sint (l + Raster_lines height l) = sint l + sint (Raster_lines height l)"
    by (rule sint_add64) (use 1 lt assms(1) sint_go_int_bounds [of height] in linarith)+
  then show "sint (l + Raster_lines height l) = sint l + min 1662 (sint height - sint l)"
    by (simp only: 1)
qed

lemma consecutive_sum: "consecutive s cs e \<Longrightarrow> sum_list (map snd cs) = e - s"
  by (induction s cs e rule: consecutive.induct) auto

lemma consecutive_le: "consecutive s cs e \<Longrightarrow> s \<le> e"
  by (induction s cs e rule: consecutive.induct) auto

lemma consecutive_bounds:
  "consecutive s cs e \<Longrightarrow> i < length cs \<Longrightarrow>
   s \<le> fst (cs ! i) \<and> 0 < snd (cs ! i) \<and> fst (cs ! i) + snd (cs ! i) \<le> e"
proof (induction s cs e arbitrary: i rule: consecutive.induct)
  case (1 s e)
  then show ?case by simp
next
  case (2 s a n cs e)
  have le: "s + n \<le> e"
    using "2.prems"(1) consecutive_le [of "s + n" cs e] by simp
  show ?case
  proof (cases i)
    case 0
    then show ?thesis using "2.prems"(1) le by simp
  next
    case (Suc j)
    then have "s + n \<le> fst (cs ! j) \<and> 0 < snd (cs ! j) \<and> fst (cs ! j) + snd (cs ! j) \<le> e"
      using "2.IH" [of j] "2.prems" by simp
    then show ?thesis using Suc "2.prems"(1) by simp
  qed
qed

lemma consecutive_next:
  "consecutive s cs e \<Longrightarrow> Suc i < length cs \<Longrightarrow>
   fst (cs ! Suc i) = fst (cs ! i) + snd (cs ! i)"
proof (induction s cs e arbitrary: i rule: consecutive.induct)
  case (1 s e)
  then show ?case by simp
next
  case (2 s a n cs e)
  show ?case
  proof (cases i)
    case 0
    from "2.prems" obtain b m cs' where cs: "cs = (b, m) # cs'"
      by (cases cs) (auto simp: 0)
    then show ?thesis using "2.prems"(1) 0 by simp
  next
    case (Suc j)
    then show ?thesis using "2.IH" [of j] "2.prems" by simp
  qed
qed

lemma consecutive_cover:
  "consecutive s cs e \<Longrightarrow> s \<le> r \<Longrightarrow> r < e \<Longrightarrow>
   \<exists>!i. i < length cs \<and> fst (cs ! i) \<le> r \<and> r < fst (cs ! i) + snd (cs ! i)"
proof (induction s cs e rule: consecutive.induct)
  case (1 s e)
  then show ?case by simp
next
  case (2 s a n cs e)
  have tl: "consecutive (s + n) cs e" and a: "a = s" and n: "0 < n"
    using "2.prems"(1) by simp_all
  show ?case
  proof (cases "r < s + n")
    case True
    have "i = 0" if "i < length ((a, n) # cs)" "fst (((a, n) # cs) ! i) \<le> r" for i
    proof (cases i)
      case 0
      then show ?thesis .
    next
      case (Suc j)
      then have "s + n \<le> fst (cs ! j)"
        using consecutive_bounds [OF tl, of j] that(1) by simp
      then show ?thesis using that(2) Suc True by simp
    qed
    moreover have "0 < length ((a, n) # cs) \<and> fst (((a, n) # cs) ! 0) \<le> r
        \<and> r < fst (((a, n) # cs) ! 0) + snd (((a, n) # cs) ! 0)"
      using a True "2.prems"(2) by simp
    ultimately show ?thesis by blast
  next
    case False
    then have "\<exists>!j. j < length cs \<and> fst (cs ! j) \<le> r \<and> r < fst (cs ! j) + snd (cs ! j)"
      using "2.IH" tl "2.prems"(3) by simp
    then obtain j where j: "j < length cs" "fst (cs ! j) \<le> r" "r < fst (cs ! j) + snd (cs ! j)"
      and uniq: "\<And>k. k < length cs \<Longrightarrow> fst (cs ! k) \<le> r \<Longrightarrow> r < fst (cs ! k) + snd (cs ! k) \<Longrightarrow> k = j"
      by blast
    have "i = Suc j" if "i < length ((a, n) # cs)" "fst (((a, n) # cs) ! i) \<le> r"
      "r < fst (((a, n) # cs) ! i) + snd (((a, n) # cs) ! i)" for i
    proof (cases i)
      case 0
      then show ?thesis using that(3) a False by simp
    next
      case (Suc k)
      then have "k = j" using that by (intro uniq) simp_all
      then show ?thesis using Suc by simp
    qed
    moreover have "Suc j < length ((a, n) # cs) \<and> fst (((a, n) # cs) ! Suc j) \<le> r
        \<and> r < fst (((a, n) # cs) ! Suc j) + snd (((a, n) # cs) ! Suc j)"
      using j by simp
    ultimately show ?thesis by blast
  qed
qed

lemma Raster_chunks_consecutive:
  "0 \<le> sint l \<Longrightarrow> sint l \<le> sint height \<Longrightarrow>
   consecutive (sint l) (map (\<lambda>(l, lines). (sint l, sint lines)) (Raster_chunks height l)) (sint height)"
proof (induction height l rule: Raster_chunks.induct)
  case (1 height l)
  show ?case
  proof (cases "l <s height")
    case False
    then show ?thesis using "1.prems" by (simp add: Raster_chunks.simps [of height l] word_sless_alt)
  next
    case True
    note v = Raster_lines_value [OF "1.prems"(1) True]
    have lt: "sint l < sint height" using True by (simp add: word_sless_alt)
    have "consecutive (sint (l + Raster_lines height l))
        (map (\<lambda>(l, lines). (sint l, sint lines)) (Raster_chunks height (l + Raster_lines height l))) (sint height)"
      using "1.IH" [OF True] "1.prems" lt by (simp add: v)
    then show ?thesis
      using True lt by (simp add: Raster_chunks.simps [of height l] v)
  qed
qed

lemma Raster_chunks_lines:
  "0 \<le> sint l \<Longrightarrow> c \<in> set (Raster_chunks height l) \<Longrightarrow>
   sint (snd c) = min 1662 (sint height - sint (fst c))"
proof (induction height l rule: Raster_chunks.induct)
  case (1 height l)
  show ?case
  proof (cases "l <s height")
    case False
    then show ?thesis using "1.prems" by (simp add: Raster_chunks.simps [of height l])
  next
    case True
    note v = Raster_lines_value [OF "1.prems"(1) True]
    have lt: "sint l < sint height" using True by (simp add: word_sless_alt)
    have nn: "0 \<le> sint (l + Raster_lines height l)" using "1.prems"(1) lt by (simp add: v)
    from "1.prems"(2) True
    have "c = (l, Raster_lines height l) \<or> c \<in> set (Raster_chunks height (l + Raster_lines height l))"
      by (simp add: Raster_chunks.simps [of height l])
    then show ?thesis
    proof
      assume "c = (l, Raster_lines height l)"
      then show ?thesis by (simp add: v)
    next
      assume "c \<in> set (Raster_chunks height (l + Raster_lines height l))"
      then show ?thesis by (rule "1.IH" [OF True nn])
    qed
  qed
qed

lemma Raster_chunks_length:
  "0 \<le> sint l \<Longrightarrow> sint l \<le> sint height \<Longrightarrow>
   int (length (Raster_chunks height l)) = (sint height - sint l + 1661) div 1662"
proof (induction height l rule: Raster_chunks.induct)
  case (1 height l)
  show ?case
  proof (cases "l <s height")
    case False
    then have "sint l = sint height" using "1.prems" by (simp add: word_sless_alt)
    then show ?thesis using False by (simp add: Raster_chunks.simps [of height l])
  next
    case True
    note v = Raster_lines_value [OF "1.prems"(1) True]
    have lt: "sint l < sint height" using True by (simp add: word_sless_alt)
    have "int (length (Raster_chunks height (l + Raster_lines height l)))
        = (sint height - sint (l + Raster_lines height l) + 1661) div 1662"
      using "1.IH" [OF True] "1.prems" lt by (simp add: v)
    then have "int (length (Raster_chunks height l))
        = 1 + (sint height - (sint l + min 1662 (sint height - sint l)) + 1661) div 1662"
      using True by (simp add: Raster_chunks.simps [of height l] v)
    also have "\<dots> = (sint height - sint l + 1661) div 1662"
    proof (cases "sint height - sint l \<le> 1662")
      case True
      have "(sint height - sint l + 1661) div 1662 = 1"
        using True lt by (intro int_div_pos_eq [where r = "sint height - sint l - 1"]) simp_all
      then show ?thesis using True by (simp add: min_def)
    next
      case False
      have "(sint height - sint l - 1 + 1662) div 1662 = (sint height - sint l - 1) div 1662 + 1"
        by (rule div_add_self2) simp
      then show ?thesis using False by (simp add: min_def algebra_simps)
    qed
    finally show ?thesis .
  qed
qed

lemma ceiling_div_1662: "\<lceil>real_of_int h / 1662\<rceil> = (h + 1661) div 1662"
proof -
  define z where "z = (h + 1661) div 1662"
  define r where "r = (h + 1661) mod 1662"
  have m: "h + 1661 = 1662 * z + r" by (simp add: z_def r_def)
  have r: "0 \<le> r" "r < 1662" by (simp_all add: r_def)
  have 1: "h \<le> 1662 * z" using m r by simp
  have 2: "1662 * (z - 1) < h" using m r by (simp add: algebra_simps)
  have "real_of_int h \<le> real_of_int (1662 * z)" using 1 by (simp only: of_int_le_iff)
  moreover have "real_of_int (1662 * (z - 1)) < real_of_int h" using 2 by (simp only: of_int_less_iff)
  ultimately have "\<lceil>real_of_int h / 1662\<rceil> = z"
    by (intro ceiling_unique) (simp_all add: field_simps)
  then show ?thesis by (simp only: z_def)
qed

section \<open>The frames of the graphics mode\<close>

lemma to_byte_signed_drop_bit:
  assumes "k \<le> 56"
  shows "to_byte (signed_drop_bit k x) = to_byte (drop_bit k x)"
  unfolding to_byte_def
proof (rule bit_word_eqI)
  fix n
  assume "n < LENGTH(8)"
  then have "\<not> 64 - k \<le> n" using assms by simp
  then show "bit (ucast (signed_drop_bit k x) :: byte) n = bit (ucast (drop_bit k x) :: byte) n"
    by (simp add: bit_simps)
qed

lemma unat_to_byte: "unat (to_byte x) = unat x mod 256"
  by (simp add: to_byte_def unsigned_ucast_eq take_bit_eq_mod)

lemma unat_signed_drop_bit_mod:
  assumes "k \<le> 56"
  shows "unat (signed_drop_bit k x :: go_int) mod 256 = unat x div 2 ^ k mod 256"
proof -
  have "unat (signed_drop_bit k x) mod 256 = unat (to_byte (signed_drop_bit k x))"
    by (simp only: unat_to_byte)
  also have "\<dots> = unat (to_byte (drop_bit k x))"
    by (simp only: to_byte_signed_drop_bit [OF assms])
  also have "\<dots> = unat (drop_bit k x) mod 256"
    by (simp only: unat_to_byte)
  also have "unat (drop_bit k x) = drop_bit k (unat x)"
    by (rule unat_drop_bit_eq)
  finally show ?thesis by (simp only: drop_bit_eq_div)
qed

lemma Raster_header_digits:
  "map unat (Raster_header width lineWidth lines) =
     [0x1D, 0x38, 0x4C] @ le_digits 4 (unat (10 + lines * lineWidth))
     @ [0x30, 0x70, 0x30, 0x01, 0x01, 0x31]
     @ le_digits 2 (unat width) @ le_digits 2 (unat lines)"
  by (simp add: Raster_header_def Let_def le_digits_2 le_digits_4 unat_to_byte
      unat_signed_drop_bit_mod [of 8, simplified] unat_signed_drop_bit_mod [of 16, simplified]
      unat_signed_drop_bit_mod [of 24, simplified])

lemma unat_nonneg: "0 \<le> sint (x :: go_int) \<Longrightarrow> unat x = nat (sint x)"
proof -
  assume nn: "0 \<le> sint x"
  have "uint x = take_bit 64 (sint x)"
    using uint_sint [of x] by simp
  also have "\<dots> = sint x"
    by (rule take_bit_int_eq_self) (use nn sint_go_int_bounds [of x] in simp_all)
  finally show ?thesis by (simp only: unat_eq_nat_uint)
qed

lemma Write_p_w: "p_w (Write buf p) = p_w p @ [buf]"
  by (simp add: Write_def)

lemma Raster_graphics_writes:
  "0 \<le> sint lineWidth \<Longrightarrow>
   sint height * sint lineWidth \<le> int (length (backing imgBw)) \<Longrightarrow>
   int (length (backing imgBw)) < 9223372036854775808 \<Longrightarrow>
   0 \<le> sint l \<Longrightarrow>
   Raster_graphics width height lineWidth imgBw l p =
     (Return (),
      p\<lparr>p_w := p_w p @ concat (map (chunk_writes width lineWidth imgBw) (Raster_chunks height l))\<rparr>)"
proof (induction width height lineWidth imgBw l p rule: Raster_graphics.induct)
  case (1 width height lineWidth imgBw l p)
  show ?case
  proof (cases "l <s height")
    case False
    then show ?thesis
      by (simp add: Raster_graphics.simps [of width height lineWidth imgBw l p]
          Raster_chunks.simps [of height l])
  next
    case True
    define n where "n = Raster_lines height l"
    define m where "m = min 1662 (sint height - sint l)"
    have lt: "sint l < sint height" using True by (simp add: word_sless_alt)
    have v: "sint n = m" "sint (l + n) = sint l + m"
      using Raster_lines_value [OF "1.prems"(4) True] by (simp_all add: n_def m_def)
    have m: "0 < m" "sint l + m \<le> sint height" using lt by (simp_all add: m_def)
    have lw: "0 \<le> sint lineWidth" by (rule "1.prems"(1))
    have top: "(sint l + m) * sint lineWidth \<le> sint height * sint lineWidth"
      using m(2) lw by (rule mult_right_mono)
    have lo_le: "sint l * sint lineWidth \<le> (sint l + m) * sint lineWidth"
      using m(1) lw by (intro mult_right_mono) simp_all
    have lo_nn: "0 \<le> sint l * sint lineWidth"
      using "1.prems"(4) lw by simp
    have hi_len: "(sint l + m) * sint lineWidth \<le> int (length (backing imgBw))"
      using top "1.prems"(2) by linarith
    have lo: "sint (l * lineWidth) = sint l * sint lineWidth"
      by (rule sint_mul64) (use lo_nn lo_le hi_len "1.prems"(3) in linarith)+
    have "sint ((l + n) * lineWidth) = sint (l + n) * sint lineWidth"
      by (rule sint_mul64) (use lo_nn lo_le hi_len "1.prems"(3) v(2) in simp_all)
    then have hi: "sint ((l + n) * lineWidth) = (sint l + m) * sint lineWidth"
      by (simp only: v(2))
    have diff: "nat ((sint l + m) * sint lineWidth) - nat (sint l * sint lineWidth)
        = nat (m * sint lineWidth)"
      using lo_nn by (simp add: nat_diff_distrib [symmetric] algebra_simps)
    define rows where "rows = \<lparr>backing = drop (nat (sint l * sint lineWidth)) (backing imgBw),
        slice_len = nat (m * sint lineWidth)\<rparr>"
    have rs: "reslice imgBw (l * lineWidth) ((l + n) * lineWidth) = Some rows"
      using lo_nn lo_le hi_len
      by (simp add: reslice_def word_sle_eq lo hi diff rows_def)
    have ct: "contents rows
        = take (nat (sint n * sint lineWidth)) (drop (nat (sint l * sint lineWidth)) (backing imgBw))"
      by (simp add: contents_def rows_def v(1))
    define p1 where "p1 = Write (Raster_header width lineWidth n) p"
    have nn: "0 \<le> sint (l + n)" using "1.prems"(4) m(1) by (simp add: v(2))
    have IH: "Raster_graphics width height lineWidth imgBw (l + n)
          (Write Raster_flush (Write (contents rows) p1))
        = (Return (),
           (Write Raster_flush (Write (contents rows) p1))
             \<lparr>p_w := p_w (Write Raster_flush (Write (contents rows) p1))
                @ concat (map (chunk_writes width lineWidth imgBw) (Raster_chunks height (l + n)))\<rparr>)"
      using "1.IH" [OF True n_def p1_def rs "1.prems"(1,2,3) nn] .
    have "Raster_graphics width height lineWidth imgBw l p
        = Raster_graphics width height lineWidth imgBw (l + n)
            (Write Raster_flush (Write (contents rows) p1))"
      using True rs
      by (simp add: Raster_graphics.simps [of width height lineWidth imgBw l p] Let_def
          n_def [symmetric] p1_def [symmetric])
    also note IH
    finally have "Raster_graphics width height lineWidth imgBw l p
        = (Return (),
           p\<lparr>p_w := p_w p @ [Raster_header width lineWidth n, contents rows, Raster_flush]
              @ concat (map (chunk_writes width lineWidth imgBw) (Raster_chunks height (l + n)))\<rparr>)"
      by (simp add: Write_def p1_def)
    moreover have "chunk_writes width lineWidth imgBw (l, n)
        = [Raster_header width lineWidth n, contents rows, Raster_flush]"
      by (simp add: chunk_writes_def ct)
    moreover have "Raster_chunks height l = (l, n) # Raster_chunks height (l + n)"
      using True by (simp add: Raster_chunks.simps [of height l] n_def)
    ultimately show ?thesis by simp
  qed
qed

lemma Raster_chunks_first:
  "0 \<le> sint l \<Longrightarrow> c \<in> set (Raster_chunks height l) \<Longrightarrow>
   sint l \<le> sint (fst c) \<and> sint (fst c) < sint height"
proof (induction height l rule: Raster_chunks.induct)
  case (1 height l)
  show ?case
  proof (cases "l <s height")
    case False
    then show ?thesis using "1.prems" by (simp add: Raster_chunks.simps [of height l])
  next
    case True
    note v = Raster_lines_value [OF "1.prems"(1) True]
    have lt: "sint l < sint height" using True by (simp add: word_sless_alt)
    have nn: "0 \<le> sint (l + Raster_lines height l)" using "1.prems"(1) lt by (simp add: v)
    from "1.prems"(2) True
    have "c = (l, Raster_lines height l) \<or> c \<in> set (Raster_chunks height (l + Raster_lines height l))"
      by (simp add: Raster_chunks.simps [of height l])
    then show ?thesis
    proof
      assume "c = (l, Raster_lines height l)"
      then show ?thesis using lt by simp
    next
      assume "c \<in> set (Raster_chunks height (l + Raster_lines height l))"
      then have "sint (l + Raster_lines height l) \<le> sint (fst c) \<and> sint (fst c) < sint height"
        by (rule "1.IH" [OF True nn])
      then show ?thesis using lt by (simp add: v min_def split: if_splits)
    qed
  qed
qed

text \<open>
  Claim C2. In the graphics mode, when the buffer holds the \<open>height \<times> lineWidth\<close> bytes of
  the image (and is shorter than \<open>2 ^ 63 - 10\<close> bytes, as every slice is), \<open>Raster\<close> returns
  after writing three buffers for every chunk, in the order of the chunks. For the chunk of \<open>lines\<close> lines from line \<open>l\<close> these are: the header
  \<open>1D 38 4C\<close>, then \<open>P = 10 + lines \<times> lineWidth\<close> in four bytes little-endian, then
  \<open>30 70 30 01 01 31\<close>, then the width and then \<open>lines\<close> in two bytes little-endian each;
  the bytes of \<open>imgBw\<close> from \<open>l \<times> lineWidth\<close> up to \<open>(l + lines) \<times> lineWidth\<close>; and the
  flush command \<open>1D 28 4C 02 00 30 32\<close>. The width is written as its low two bytes
  (\<open>unat width\<close> is \<open>width\<close> itself when \<open>width\<close> is not negative).
\<close>

theorem Raster_graphics_frames:
  assumes "0 \<le>s lineWidth"
    and "sint height * sint lineWidth \<le> int (length (backing imgBw))"
    and "int (length (backing imgBw)) < 9223372036854775798"
  shows "Raster width height lineWidth imgBw ''graphics'' p =
           (Return (),
            p\<lparr>p_w := p_w p
               @ concat (map (chunk_writes width lineWidth imgBw) (Raster_chunks height 0))\<rparr>)
       \<and> (\<forall>c \<in> set (Raster_chunks height 0).
             chunk_writes width lineWidth imgBw c =
               [Raster_header width lineWidth (snd c),
                take (nat (sint (snd c) * sint lineWidth))
                  (drop (nat (sint (fst c) * sint lineWidth)) (backing imgBw)),
                Raster_flush]
           \<and> map unat (Raster_header width lineWidth (snd c)) =
               [0x1D, 0x38, 0x4C] @ le_digits 4 (nat (10 + sint (snd c) * sint lineWidth))
               @ [0x30, 0x70, 0x30, 0x01, 0x01, 0x31]
               @ le_digits 2 (unat width) @ le_digits 2 (nat (sint (snd c)))
           \<and> length (take (nat (sint (snd c) * sint lineWidth))
                  (drop (nat (sint (fst c) * sint lineWidth)) (backing imgBw)))
               = nat (sint (snd c) * sint lineWidth))
       \<and> Raster_flush = [0x1D, 0x28, 0x4C, 0x02, 0x00, 0x30, 0x32]"
proof -
  have lw: "0 \<le> sint lineWidth" using assms(1) by (simp add: word_sle_eq)
  have cap: "int (length (backing imgBw)) < 9223372036854775808" using assms(3) by simp
  have run: "Raster width height lineWidth imgBw ''graphics'' p =
      (Return (),
       p\<lparr>p_w := p_w p
          @ concat (map (chunk_writes width lineWidth imgBw) (Raster_chunks height 0))\<rparr>)"
    using Raster_graphics_writes [OF lw assms(2) cap, of 0 width p] by (simp add: Raster_def)
  have each: "chunk_writes width lineWidth imgBw c =
        [Raster_header width lineWidth (snd c),
         take (nat (sint (snd c) * sint lineWidth))
           (drop (nat (sint (fst c) * sint lineWidth)) (backing imgBw)),
         Raster_flush]
      \<and> map unat (Raster_header width lineWidth (snd c)) =
        [0x1D, 0x38, 0x4C] @ le_digits 4 (nat (10 + sint (snd c) * sint lineWidth))
        @ [0x30, 0x70, 0x30, 0x01, 0x01, 0x31]
        @ le_digits 2 (unat width) @ le_digits 2 (nat (sint (snd c)))
      \<and> length (take (nat (sint (snd c) * sint lineWidth))
           (drop (nat (sint (fst c) * sint lineWidth)) (backing imgBw)))
        = nat (sint (snd c) * sint lineWidth)"
    if c: "c \<in> set (Raster_chunks height 0)" for c
  proof -
    have a: "0 \<le> sint (fst c)" "sint (fst c) < sint height"
      using Raster_chunks_first [of 0 c height] c by simp_all
    have n: "sint (snd c) = min 1662 (sint height - sint (fst c))"
      using Raster_chunks_lines [of 0 c height] c by simp
    have n0: "0 < sint (snd c)" and nh: "sint (fst c) + sint (snd c) \<le> sint height"
      using a n by simp_all
    have top: "(sint (fst c) + sint (snd c)) * sint lineWidth \<le> sint height * sint lineWidth"
      using nh lw by (rule mult_right_mono)
    have lo: "0 \<le> sint (fst c) * sint lineWidth" using a(1) lw by simp
    have prod0: "0 \<le> sint (snd c) * sint lineWidth" using n0 lw by simp
    have fits: "sint (fst c) * sint lineWidth + sint (snd c) * sint lineWidth
        \<le> int (length (backing imgBw))"
      using top assms(2) by (simp add: algebra_simps)
    have mul: "sint (snd c * lineWidth) = sint (snd c) * sint lineWidth"
      by (rule sint_mul64) (use prod0 lo fits assms(3) in linarith)+
    have "sint (10 + snd c * lineWidth) = sint (10 :: go_int) + sint (snd c * lineWidth)"
      by (rule sint_add64) (use prod0 lo fits assms(3) mul in simp_all)
    then have P: "sint (10 + snd c * lineWidth) = 10 + sint (snd c) * sint lineWidth"
      by (simp add: mul)
    have uP: "unat (10 + snd c * lineWidth) = nat (10 + sint (snd c) * sint lineWidth)"
      using unat_nonneg [of "10 + snd c * lineWidth"] prod0 by (simp add: P)
    have un: "unat (snd c) = nat (sint (snd c))"
      using unat_nonneg [of "snd c"] n0 by simp
    have hdr: "map unat (Raster_header width lineWidth (snd c)) =
        [0x1D, 0x38, 0x4C] @ le_digits 4 (nat (10 + sint (snd c) * sint lineWidth))
        @ [0x30, 0x70, 0x30, 0x01, 0x01, 0x31]
        @ le_digits 2 (unat width) @ le_digits 2 (nat (sint (snd c)))"
      by (simp only: Raster_header_digits uP un)
    have len: "length (take (nat (sint (snd c) * sint lineWidth))
           (drop (nat (sint (fst c) * sint lineWidth)) (backing imgBw)))
        = nat (sint (snd c) * sint lineWidth)"
      using fits lo prod0 by simp
    have cw: "chunk_writes width lineWidth imgBw c =
        [Raster_header width lineWidth (snd c),
         take (nat (sint (snd c) * sint lineWidth))
           (drop (nat (sint (fst c) * sint lineWidth)) (backing imgBw)),
         Raster_flush]"
      by (cases c) (simp add: chunk_writes_def)
    show ?thesis using cw hdr len by blast
  qed
  show ?thesis using run each by (simp add: Raster_flush_def)
qed

text \<open>An image of 1663 lines of one byte: a chunk of 1662 lines and a chunk of one line.\<close>

lemma Raster_chunks_1663: "Raster_chunks 1663 0 = [(0, 1662), (1662, 1)]"
  by code_simp

lemma Raster_header_1662: "Raster_header 8 1 1662 =
    [0x1D, 0x38, 0x4C, 0x88, 0x06, 0x00, 0x00, 0x30, 0x70, 0x30, 0x01, 0x01, 0x31,
     0x08, 0x00, 0x7E, 0x06]"
  by code_simp

lemma Raster_header_1: "Raster_header 8 1 1 =
    [0x1D, 0x38, 0x4C, 0x0B, 0x00, 0x00, 0x00, 0x30, 0x70, 0x30, 0x01, 0x01, 0x31,
     0x08, 0x00, 0x01, 0x00]"
  by code_simp

theorem Raster_graphics_frames_witness:
  "(0 :: go_int) \<le>s 1
   \<and> sint (1663 :: go_int) * sint (1 :: go_int)
       \<le> int (length (backing \<lparr>backing = replicate 1663 0xFF, slice_len = 1663\<rparr>))
   \<and> int (length (backing \<lparr>backing = replicate 1663 0xFF, slice_len = 1663\<rparr>))
       < 9223372036854775798
   \<and> Raster 8 1663 1 \<lparr>backing = replicate 1663 0xFF, slice_len = 1663\<rparr> ''graphics''
         \<lparr>p_w = [], p_width = 1, p_height = 1, p_underline = 0, p_emphasize = 0,
          p_upsidedown = 0, p_rotate = 0, p_reverse = 0, p_smooth = 0\<rparr>
       = (Return (),
          \<lparr>p_w =
             [[0x1D, 0x38, 0x4C, 0x88, 0x06, 0x00, 0x00, 0x30, 0x70, 0x30, 0x01, 0x01, 0x31,
               0x08, 0x00, 0x7E, 0x06],
              replicate 1662 0xFF,
              [0x1D, 0x28, 0x4C, 0x02, 0x00, 0x30, 0x32],
              [0x1D, 0x38, 0x4C, 0x0B, 0x00, 0x00, 0x00, 0x30, 0x70, 0x30, 0x01, 0x01, 0x31,
               0x08, 0x00, 0x01, 0x00],
              [0xFF],
              [0x1D, 0x28, 0x4C, 0x02, 0x00, 0x30, 0x32]],
           p_width = 1, p_height = 1, p_underline = 0, p_emphasize = 0,
           p_upsidedown = 0, p_rotate = 0, p_reverse = 0, p_smooth = 0\<rparr>)"
proof -
  have h1: "(0 :: go_int) \<le>s 1" by (simp add: word_sle_eq)
  have h2: "sint (1663 :: go_int) * sint (1 :: go_int)
      \<le> int (length (backing \<lparr>backing = replicate 1663 0xFF, slice_len = 1663\<rparr>))"
    by simp
  have h3: "int (length (backing \<lparr>backing = replicate 1663 0xFF, slice_len = 1663\<rparr>))
      < 9223372036854775798"
    by simp
  have tk: "take 1662 (replicate 1663 (0xFF :: byte)) = replicate 1662 0xFF"
      "drop 1662 (replicate 1663 (0xFF :: byte)) = [0xFF]"
    by simp_all
  show ?thesis
    using h1 Raster_graphics_frames [OF h1 h2 h3, of 8
        "\<lparr>p_w = [], p_width = 1, p_height = 1, p_underline = 0, p_emphasize = 0,
          p_upsidedown = 0, p_rotate = 0, p_reverse = 0, p_smooth = 0\<rparr>"]
    by (simp add: Raster_chunks_1663 chunk_writes_def Raster_header_1662 Raster_header_1
        Raster_flush_def tk)
qed

text \<open>
  Without the bytes of the image the slice expression panics, after the header of the
  chunk has been written: here for one line of one byte and an empty buffer.
\<close>

lemma Raster_graphics_short_buffer:
  "Raster 8 1 1 \<lparr>backing = [], slice_len = 0\<rparr> ''graphics''
     \<lparr>p_w = [], p_width = 1, p_height = 1, p_underline = 0, p_emphasize = 0,
      p_upsidedown = 0, p_rotate = 0, p_reverse = 0, p_smooth = 0\<rparr>
   = (Panic SliceBoundsOutOfRange,
      \<lparr>p_w = [[0x1D, 0x38, 0x4C, 0x0B, 0x00, 0x00, 0x00, 0x30, 0x70, 0x30, 0x01, 0x01, 0x31,
                0x08, 0x00, 0x01, 0x00]],
       p_width = 1, p_height = 1, p_underline = 0, p_emphasize = 0,
       p_upsidedown = 0, p_rotate = 0, p_reverse = 0, p_smooth = 0\<rparr>)"
proof -
  have l: "Raster_lines 1 0 = 1"
    by (simp add: Raster_lines_def gs8lMaxY_def word_sless_alt)
  have r: "reslice \<lparr>backing = [], slice_len = 0\<rparr> 0 1 = None"
    by (simp add: reslice_def word_sle_eq)
  have "(0 :: go_int) <s 1" by (simp add: word_sless_alt)
  then show ?thesis
    by (simp add: Raster_def Raster_graphics.simps [of _ _ _ _ 0] l r Raster_header_1 Write_def Let_def)
qed

section \<open>What the graphics mode writes, chunk by chunk\<close>

text \<open>
  The loop of the graphics mode from line \<open>l\<close> on: it writes the three buffers of every
  chunk up to the first one whose slice expression is out of bounds, and of that one the
  header only.
\<close>

lemma Raster_graphics_passes:
  "Raster_graphics width height lineWidth imgBw l p =
     (if list_all (chunk_in_bounds lineWidth imgBw) (Raster_chunks height l)
      then (Return (),
            p\<lparr>p_w := p_w p
               @ concat (map (chunk_buffers width lineWidth imgBw) (Raster_chunks height l))\<rparr>)
      else (Panic SliceBoundsOutOfRange,
            p\<lparr>p_w := p_w p
               @ concat (map (chunk_buffers width lineWidth imgBw)
                    (takeWhile (chunk_in_bounds lineWidth imgBw) (Raster_chunks height l)))
               @ [Raster_header width lineWidth
                    (snd (Raster_chunks height l
                          ! length (takeWhile (chunk_in_bounds lineWidth imgBw)
                                      (Raster_chunks height l))))]\<rparr>))"
proof (induction width height lineWidth imgBw l p rule: Raster_graphics.induct)
  case (1 width height lineWidth imgBw l p)
  show ?case
  proof (cases "l <s height")
    case False
    then show ?thesis
      by (simp add: Raster_graphics.simps [of width height lineWidth imgBw l p]
          Raster_chunks.simps [of height l])
  next
    case True
    define n where "n = Raster_lines height l"
    define p1 where "p1 = Write (Raster_header width lineWidth n) p"
    have cs: "Raster_chunks height l = (l, n) # Raster_chunks height (l + n)"
      using True by (simp add: Raster_chunks.simps [of height l] n_def)
    show ?thesis
    proof (cases "reslice imgBw (l * lineWidth) ((l + n) * lineWidth)")
      case None
      then have "Raster_graphics width height lineWidth imgBw l p
          = (Panic SliceBoundsOutOfRange, p1)"
        using True
        by (simp add: Raster_graphics.simps [of width height lineWidth imgBw l p] Let_def
            n_def [symmetric] p1_def)
      moreover have "\<not> chunk_in_bounds lineWidth imgBw (l, n)"
        using None by (simp add: chunk_in_bounds_def)
      ultimately show ?thesis
        by (simp add: cs p1_def Write_def)
    next
      case (Some rows)
      define p2 where "p2 = Write Raster_flush (Write (contents rows) p1)"
      have step: "Raster_graphics width height lineWidth imgBw l p
          = Raster_graphics width height lineWidth imgBw (l + n) p2"
        using True Some
        by (simp add: Raster_graphics.simps [of width height lineWidth imgBw l p] Let_def
            n_def [symmetric] p1_def [symmetric] p2_def)
      have ok: "chunk_in_bounds lineWidth imgBw (l, n)"
        using Some by (simp add: chunk_in_bounds_def)
      have cb: "chunk_buffers width lineWidth imgBw (l, n)
          = [Raster_header width lineWidth n, contents rows, Raster_flush]"
        using Some by (simp add: chunk_buffers_def)
      have w2: "p_w p2 = p_w p @ [Raster_header width lineWidth n, contents rows, Raster_flush]"
        by (simp add: p2_def p1_def Write_def)
      have upd: "p2\<lparr>p_w := xs\<rparr> = p\<lparr>p_w := xs\<rparr>" for xs
        by (simp add: p2_def p1_def Write_def)
      note IH = "1.IH" [OF True n_def p1_def Some, folded p2_def]
      show ?thesis
        by (simp only: step IH) (simp add: cs ok cb w2 upd)
    qed
  qed
qed

text \<open>
  In a buffer that holds \<open>height \<times> lineWidth\<close> bytes no product of the loop wraps around
  and every slice expression is within bounds: the slice of a chunk is its lines.
\<close>

lemma chunk_reslice:
  assumes c: "c \<in> set (Raster_chunks height 0)"
    and lw: "0 \<le> sint lineWidth"
    and fit: "sint height * sint lineWidth \<le> int (length (backing imgBw))"
    and cap: "int (length (backing imgBw)) < 9223372036854775808"
  shows "reslice imgBw (fst c * lineWidth) ((fst c + snd c) * lineWidth) =
      Some \<lparr>backing = drop (nat (sint (fst c) * sint lineWidth)) (backing imgBw),
            slice_len = nat (sint (snd c) * sint lineWidth)\<rparr>"
proof -
  have a: "0 \<le> sint (fst c)" "sint (fst c) < sint height"
    using Raster_chunks_first [of 0 c height] c by simp_all
  have n: "sint (snd c) = min 1662 (sint height - sint (fst c))"
    using Raster_chunks_lines [of 0 c height] c by simp
  have n0: "0 < sint (snd c)" and nh: "sint (fst c) + sint (snd c) \<le> sint height"
    using a n by simp_all
  have sum: "sint (fst c + snd c) = sint (fst c) + sint (snd c)"
    by (rule sint_add64) (use a n0 nh sint_go_int_bounds [of height] in linarith)+
  have top: "(sint (fst c) + sint (snd c)) * sint lineWidth \<le> sint height * sint lineWidth"
    using nh lw by (rule mult_right_mono)
  have lo_le: "sint (fst c) * sint lineWidth \<le> (sint (fst c) + sint (snd c)) * sint lineWidth"
    using n0 lw by (intro mult_right_mono) simp_all
  have lo_nn: "0 \<le> sint (fst c) * sint lineWidth"
    using a(1) lw by simp
  have hi_len: "(sint (fst c) + sint (snd c)) * sint lineWidth \<le> int (length (backing imgBw))"
    using top fit by linarith
  have lo: "sint (fst c * lineWidth) = sint (fst c) * sint lineWidth"
    by (rule sint_mul64) (use lo_nn lo_le hi_len cap in linarith)+
  have "sint ((fst c + snd c) * lineWidth) = sint (fst c + snd c) * sint lineWidth"
    by (rule sint_mul64) (use lo_nn lo_le hi_len cap sum in simp_all)
  then have hi: "sint ((fst c + snd c) * lineWidth) = (sint (fst c) + sint (snd c)) * sint lineWidth"
    by (simp only: sum)
  have diff: "nat ((sint (fst c) + sint (snd c)) * sint lineWidth) - nat (sint (fst c) * sint lineWidth)
      = nat (sint (snd c) * sint lineWidth)"
    using lo_nn by (simp add: nat_diff_distrib [symmetric] algebra_simps)
  show ?thesis
    using lo_nn lo_le hi_len
    by (simp add: reslice_def word_sle_eq lo hi diff)
qed

lemma chunk_buffers_in_bounds:
  assumes "c \<in> set (Raster_chunks height 0)"
    and "0 \<le> sint lineWidth"
    and "sint height * sint lineWidth \<le> int (length (backing imgBw))"
    and "int (length (backing imgBw)) < 9223372036854775808"
  shows "chunk_in_bounds lineWidth imgBw c"
    and "chunk_buffers width lineWidth imgBw c = chunk_writes width lineWidth imgBw c"
  using chunk_reslice [OF assms]
  by (cases c; simp add: chunk_in_bounds_def chunk_buffers_def chunk_writes_def contents_def)+

text \<open>The lines of consecutive row ranges, one after the other, are the lines from the
  first row to the last.\<close>

lemma consecutive_rows:
  assumes "consecutive s cs e" and "0 \<le> s" and "0 \<le> lw"
  shows "concat (map (\<lambda>(a, n). take (nat (n * lw)) (drop (nat (a * lw)) xs)) cs)
      = take (nat ((e - s) * lw)) (drop (nat (s * lw)) xs)"
  using assms
proof (induction s cs e rule: consecutive.induct)
  case (1 s e)
  then show ?case by simp
next
  case (2 s a n cs e)
  have tl: "consecutive (s + n) cs e" and a: "a = s" and n: "0 < n"
    using "2.prems"(1) by simp_all
  have le: "s + n \<le> e" using tl by (rule consecutive_le)
  have IH: "concat (map (\<lambda>(a, n). take (nat (n * lw)) (drop (nat (a * lw)) xs)) cs)
      = take (nat ((e - (s + n)) * lw)) (drop (nat ((s + n) * lw)) xs)"
    using "2.IH" [OF tl] "2.prems"(2,3) n by simp
  have i: "nat ((s + n) * lw) = nat (s * lw) + nat (n * lw)"
    using "2.prems"(2,3) n by (simp add: nat_add_distrib algebra_simps)
  have j: "nat ((e - s) * lw) = nat (n * lw) + nat ((e - (s + n)) * lw)"
  proof -
    have "(e - s) * lw = n * lw + (e - (s + n)) * lw" by (simp add: algebra_simps)
    moreover have "0 \<le> n * lw" "0 \<le> (e - (s + n)) * lw"
      using n le "2.prems"(3) by simp_all
    ultimately show ?thesis by (simp add: nat_add_distrib)
  qed
  have "take (nat ((e - s) * lw)) (drop (nat (s * lw)) xs)
      = take (nat (n * lw)) (drop (nat (s * lw)) xs)
        @ take (nat ((e - (s + n)) * lw)) (drop (nat (n * lw)) (drop (nat (s * lw)) xs))"
    by (simp only: j take_add)
  also have "drop (nat (n * lw)) (drop (nat (s * lw)) xs) = drop (nat ((s + n) * lw)) xs"
  proof -
    have "nat (n * lw) + nat (s * lw) = nat ((s + n) * lw)" using i by linarith
    then show ?thesis by (simp only: drop_drop)
  qed
  finally show ?case
    by (simp add: a IH)
qed

lemma length_chunk_buffers:
  "length (concat (map (chunk_buffers width lineWidth imgBw) cs)) = 3 * length cs"
  by (induction cs) (auto simp add: chunk_buffers_def)

lemma emitted_appended: "emitted p (p\<lparr>p_w := p_w p @ xs\<rparr>) = xs"
  by (simp add: emitted_def)

lemma Raster_rows_written:
  assumes pos: "0 < sint height"
    and lw: "0 \<le> sint lineWidth"
    and fit: "sint height * sint lineWidth \<le> int (length (backing imgBw))"
    and cap: "int (length (backing imgBw)) < 9223372036854775808"
  shows "concat (map (\<lambda>c. chunk_buffers width lineWidth imgBw c ! 1) (Raster_chunks height 0))
      = take (nat (sint height * sint lineWidth)) (backing imgBw)"
proof -
  have con: "consecutive 0 (chunk_rows height) (sint height)"
    using Raster_chunks_consecutive [of 0 height] pos by (simp add: chunk_rows_def)
  have "map (\<lambda>c. chunk_buffers width lineWidth imgBw c ! 1) (Raster_chunks height 0)
      = map (\<lambda>c. chunk_writes width lineWidth imgBw c ! 1) (Raster_chunks height 0)"
    using chunk_buffers_in_bounds(2) [OF _ lw fit cap] by simp
  also have "\<dots> = map (\<lambda>(a, n). take (nat (n * sint lineWidth))
        (drop (nat (a * sint lineWidth)) (backing imgBw))) (chunk_rows height)"
    by (simp add: chunk_rows_def chunk_writes_def split_def)
  finally have "concat (map (\<lambda>c. chunk_buffers width lineWidth imgBw c ! 1) (Raster_chunks height 0))
      = concat (map (\<lambda>(a, n). take (nat (n * sint lineWidth))
        (drop (nat (a * sint lineWidth)) (backing imgBw))) (chunk_rows height))"
    by simp
  also have "\<dots> = take (nat ((sint height - 0) * sint lineWidth))
        (drop (nat (0 * sint lineWidth)) (backing imgBw))"
    using con _ lw by (rule consecutive_rows) simp
  finally show ?thesis by simp
qed

text \<open>
  Claim C1. For every \<open>height > 0\<close> the graphics mode of \<open>Raster\<close> writes the image chunk
  by chunk, in the order of \<open>Raster_chunks height 0\<close>: for every chunk whose slice
  expression is within the buffer the header with the chunk's line count, the lines of
  the chunk, the flush command. At the first chunk whose slice expression is not, it
  panics after that chunk's header. When the buffer holds the \<open>height \<times> lineWidth\<close> bytes
  of the image, every chunk is within the buffer: \<open>Raster\<close> returns, it has written three
  buffers for each of \<open>\<lceil>height / 1662\<rceil>\<close> chunks, and the lines written, chunk after
  chunk, are the first \<open>height \<times> lineWidth\<close> bytes of the buffer, every line once and in
  order. Every chunk takes \<open>min 1662 (height - l)\<close> lines from its first line \<open>l\<close>, at
  least one and at most 1662, and the line counts add up to \<open>height\<close>. The first chunk
  starts at line 0, every next one at the line where the one before ends, all lie within
  \<open>[0, height)\<close>, and every line of \<open>[0, height)\<close> is in exactly one chunk: the chunks
  cover the lines in increasing order with no gap and no overlap.
\<close>

theorem Raster_chunks_partition:
  assumes "0 <s height"
  shows "Raster width height lineWidth imgBw ''graphics'' p =
           (if list_all (chunk_in_bounds lineWidth imgBw) (Raster_chunks height 0)
            then (Return (),
                  p\<lparr>p_w := p_w p
                     @ concat (map (chunk_buffers width lineWidth imgBw)
                          (Raster_chunks height 0))\<rparr>)
            else (Panic SliceBoundsOutOfRange,
                  p\<lparr>p_w := p_w p
                     @ concat (map (chunk_buffers width lineWidth imgBw)
                          (takeWhile (chunk_in_bounds lineWidth imgBw) (Raster_chunks height 0)))
                     @ [Raster_header width lineWidth
                          (snd (Raster_chunks height 0
                                ! length (takeWhile (chunk_in_bounds lineWidth imgBw)
                                            (Raster_chunks height 0))))]\<rparr>))
       \<and> (0 \<le>s lineWidth
            \<and> sint height * sint lineWidth \<le> int (length (backing imgBw))
            \<and> int (length (backing imgBw)) < 9223372036854775808
          \<longrightarrow> list_all (chunk_in_bounds lineWidth imgBw) (Raster_chunks height 0)
            \<and> fst (Raster width height lineWidth imgBw ''graphics'' p) = Return ()
            \<and> int (length (emitted p (snd (Raster width height lineWidth imgBw ''graphics'' p))))
                = 3 * \<lceil>real_of_int (sint height) / 1662\<rceil>
            \<and> concat (map (\<lambda>c. chunk_buffers width lineWidth imgBw c ! 1)
                  (Raster_chunks height 0))
                = take (nat (sint height * sint lineWidth)) (backing imgBw))
       \<and> chunk_rows height = map (\<lambda>(l, lines). (sint l, sint lines)) (Raster_chunks height 0)
       \<and> int (length (chunk_rows height)) = \<lceil>real_of_int (sint height) / 1662\<rceil>
       \<and> sum_list (map snd (chunk_rows height)) = sint height
       \<and> (\<forall>c \<in> set (chunk_rows height).
             snd c = min 1662 (sint height - fst c) \<and> 1 \<le> snd c \<and> snd c \<le> 1662)
       \<and> fst (hd (chunk_rows height)) = 0
       \<and> (\<forall>i. Suc i < length (chunk_rows height) \<longrightarrow>
             fst (chunk_rows height ! Suc i)
               = fst (chunk_rows height ! i) + snd (chunk_rows height ! i))
       \<and> (\<forall>i < length (chunk_rows height).
             0 \<le> fst (chunk_rows height ! i)
             \<and> fst (chunk_rows height ! i) + snd (chunk_rows height ! i) \<le> sint height)
       \<and> (\<forall>r. 0 \<le> r \<and> r < sint height \<longrightarrow>
             (\<exists>!i. i < length (chunk_rows height)
                  \<and> fst (chunk_rows height ! i) \<le> r
                  \<and> r < fst (chunk_rows height ! i) + snd (chunk_rows height ! i)))"
proof -
  have pos: "0 < sint height" using assms by (simp add: word_sless_alt)
  have con: "consecutive 0 (chunk_rows height) (sint height)"
    using Raster_chunks_consecutive [of 0 height] pos by (simp add: chunk_rows_def)
  have "int (length (chunk_rows height)) = (sint height + 1661) div 1662"
    using Raster_chunks_length [of 0 height] pos by (simp add: chunk_rows_def)
  then have count: "int (length (chunk_rows height)) = \<lceil>real_of_int (sint height) / 1662\<rceil>"
    by (simp only: ceiling_div_1662)
  have len: "length (Raster_chunks height 0) = length (chunk_rows height)"
    by (simp add: chunk_rows_def)
  have passes: "Raster width height lineWidth imgBw ''graphics'' p =
           (if list_all (chunk_in_bounds lineWidth imgBw) (Raster_chunks height 0)
            then (Return (),
                  p\<lparr>p_w := p_w p
                     @ concat (map (chunk_buffers width lineWidth imgBw)
                          (Raster_chunks height 0))\<rparr>)
            else (Panic SliceBoundsOutOfRange,
                  p\<lparr>p_w := p_w p
                     @ concat (map (chunk_buffers width lineWidth imgBw)
                          (takeWhile (chunk_in_bounds lineWidth imgBw) (Raster_chunks height 0)))
                     @ [Raster_header width lineWidth
                          (snd (Raster_chunks height 0
                                ! length (takeWhile (chunk_in_bounds lineWidth imgBw)
                                            (Raster_chunks height 0))))]\<rparr>))"
    using Raster_graphics_passes [of width height lineWidth imgBw 0 p]
    by (simp only: Raster_def) simp
  have buffer: "list_all (chunk_in_bounds lineWidth imgBw) (Raster_chunks height 0)
      \<and> fst (Raster width height lineWidth imgBw ''graphics'' p) = Return ()
      \<and> int (length (emitted p (snd (Raster width height lineWidth imgBw ''graphics'' p))))
          = 3 * \<lceil>real_of_int (sint height) / 1662\<rceil>
      \<and> concat (map (\<lambda>c. chunk_buffers width lineWidth imgBw c ! 1) (Raster_chunks height 0))
          = take (nat (sint height * sint lineWidth)) (backing imgBw)"
    if h: "0 \<le>s lineWidth"
      "sint height * sint lineWidth \<le> int (length (backing imgBw))"
      "int (length (backing imgBw)) < 9223372036854775808"
  proof -
    have lw: "0 \<le> sint lineWidth" using h(1) by (simp add: word_sle_eq)
    have all: "list_all (chunk_in_bounds lineWidth imgBw) (Raster_chunks height 0)"
      using chunk_buffers_in_bounds(1) [OF _ lw h(2,3)] by (simp add: list_all_iff)
    have r: "Raster width height lineWidth imgBw ''graphics'' p =
        (Return (),
         p\<lparr>p_w := p_w p
            @ concat (map (chunk_buffers width lineWidth imgBw) (Raster_chunks height 0))\<rparr>)"
      using passes all by simp
    have "int (length (emitted p (snd (Raster width height lineWidth imgBw ''graphics'' p))))
        = 3 * int (length (chunk_rows height))"
      by (simp only: r snd_conv emitted_appended length_chunk_buffers len of_nat_mult of_nat_numeral)
    then have n: "int (length (emitted p (snd (Raster width height lineWidth imgBw ''graphics'' p))))
        = 3 * \<lceil>real_of_int (sint height) / 1662\<rceil>"
      by (simp only: count)
    show ?thesis
      using all r n Raster_rows_written [OF pos lw h(2,3)] by simp
  qed
  have total: "sum_list (map snd (chunk_rows height)) = sint height"
    using consecutive_sum [OF con] by simp
  have each: "snd c = min 1662 (sint height - fst c) \<and> 1 \<le> snd c \<and> snd c \<le> 1662"
    if c: "c \<in> set (chunk_rows height)" for c
  proof -
    from c obtain d where d: "d \<in> set (Raster_chunks height 0)" and cd: "c = (sint (fst d), sint (snd d))"
      by (auto simp: chunk_rows_def)
    have m: "snd c = min 1662 (sint height - fst c)"
      using Raster_chunks_lines [of 0 d height] d cd by simp
    from c obtain i where i: "i < length (chunk_rows height)" "chunk_rows height ! i = c"
      by (auto simp: in_set_conv_nth)
    have "0 < snd c" using consecutive_bounds [OF con i(1)] i(2) by simp
    then show ?thesis using m by simp
  qed
  have ne: "chunk_rows height \<noteq> []"
    using con pos by (cases "chunk_rows height") auto
  have first: "fst (hd (chunk_rows height)) = 0"
    using con ne by (cases "chunk_rows height") auto
  have nxt: "fst (chunk_rows height ! Suc i) = fst (chunk_rows height ! i) + snd (chunk_rows height ! i)"
    if "Suc i < length (chunk_rows height)" for i
    using consecutive_next [OF con that] .
  have inside: "0 \<le> fst (chunk_rows height ! i)
      \<and> fst (chunk_rows height ! i) + snd (chunk_rows height ! i) \<le> sint height"
    if "i < length (chunk_rows height)" for i
    using consecutive_bounds [OF con that] by simp
  have cover: "\<exists>!i. i < length (chunk_rows height) \<and> fst (chunk_rows height ! i) \<le> r
      \<and> r < fst (chunk_rows height ! i) + snd (chunk_rows height ! i)"
    if "0 \<le> r" "r < sint height" for r
    using consecutive_cover [OF con that] .
  have rows: "chunk_rows height = map (\<lambda>(l, lines). (sint l, sint lines)) (Raster_chunks height 0)"
    by (rule chunk_rows_def)
  show ?thesis
    apply (intro conjI)
    subgoal by (rule passes)
    subgoal using buffer by blast
    subgoal by (rule rows)
    subgoal by (rule count)
    subgoal by (rule total)
    subgoal using each by blast
    subgoal by (rule first)
    subgoal using nxt by blast
    subgoal using inside by blast
    subgoal using cover by blast
    done
qed

text \<open>
  An image of 512 by 2000 dots, all black: the chunks \<open>[0, 1662)\<close> and \<open>[1662, 2000)\<close>, the
  second of 338 lines. With an empty buffer instead, \<open>Raster\<close> panics after the first
  header.
\<close>

lemma Raster_chunks_2000: "Raster_chunks 2000 0 = [(0, 1662), (1662, 338)]"
  by code_simp

lemma Raster_header_512_1662: "Raster_header 512 64 1662 =
    [0x1D, 0x38, 0x4C, 0x8A, 0x9F, 0x01, 0x00, 0x30, 0x70, 0x30, 0x01, 0x01, 0x31,
     0x00, 0x02, 0x7E, 0x06]"
  by code_simp

lemma Raster_header_512_338: "Raster_header 512 64 338 =
    [0x1D, 0x38, 0x4C, 0x8A, 0x54, 0x00, 0x00, 0x30, 0x70, 0x30, 0x01, 0x01, 0x31,
     0x00, 0x02, 0x52, 0x01]"
  by code_simp

theorem Raster_chunks_partition_witness:
  "(0 :: go_int) <s 2000
   \<and> Raster 512 2000 64 \<lparr>backing = replicate 128000 0xFF, slice_len = 128000\<rparr> ''graphics''
         \<lparr>p_w = [], p_width = 1, p_height = 1, p_underline = 0, p_emphasize = 0,
          p_upsidedown = 0, p_rotate = 0, p_reverse = 0, p_smooth = 0\<rparr>
       = (Return (),
          \<lparr>p_w =
             [[0x1D, 0x38, 0x4C, 0x8A, 0x9F, 0x01, 0x00, 0x30, 0x70, 0x30, 0x01, 0x01, 0x31,
               0x00, 0x02, 0x7E, 0x06],
              replicate 106368 0xFF,
              [0x1D, 0x28, 0x4C, 0x02, 0x00, 0x30, 0x32],
              [0x1D, 0x38, 0x4C, 0x8A, 0x54, 0x00, 0x00, 0x30, 0x70, 0x30, 0x01, 0x01, 0x31,
               0x00, 0x02, 0x52, 0x01],
              replicate 21632 0xFF,
              [0x1D, 0x28, 0x4C, 0x02, 0x00, 0x30, 0x32]],
           p_width = 1, p_height = 1, p_underline = 0, p_emphasize = 0,
           p_upsidedown = 0, p_rotate = 0, p_reverse = 0, p_smooth = 0\<rparr>)
   \<and> Raster 8 2000 1 \<lparr>backing = [], slice_len = 0\<rparr> ''graphics''
         \<lparr>p_w = [], p_width = 1, p_height = 1, p_underline = 0, p_emphasize = 0,
          p_upsidedown = 0, p_rotate = 0, p_reverse = 0, p_smooth = 0\<rparr>
       = (Panic SliceBoundsOutOfRange,
          \<lparr>p_w =
             [[0x1D, 0x38, 0x4C, 0x88, 0x06, 0x00, 0x00, 0x30, 0x70, 0x30, 0x01, 0x01, 0x31,
               0x08, 0x00, 0x7E, 0x06]],
           p_width = 1, p_height = 1, p_underline = 0, p_emphasize = 0,
           p_upsidedown = 0, p_rotate = 0, p_reverse = 0, p_smooth = 0\<rparr>)
   \<and> int (length (emitted
         \<lparr>p_w = [], p_width = 1, p_height = 1, p_underline = 0, p_emphasize = 0,
          p_upsidedown = 0, p_rotate = 0, p_reverse = 0, p_smooth = 0\<rparr>
         (snd (Raster 512 2000 64 \<lparr>backing = replicate 128000 0xFF, slice_len = 128000\<rparr>
                 ''graphics''
                 \<lparr>p_w = [], p_width = 1, p_height = 1, p_underline = 0, p_emphasize = 0,
                  p_upsidedown = 0, p_rotate = 0, p_reverse = 0, p_smooth = 0\<rparr>)))) = 6
   \<and> concat (map (\<lambda>c. chunk_buffers 512 64
                      \<lparr>backing = replicate 128000 0xFF, slice_len = 128000\<rparr> c ! 1)
         (Raster_chunks 2000 0)) = replicate 128000 0xFF
   \<and> chunk_rows 2000 = [(0, 1662), (1662, 338)]
   \<and> int (length (chunk_rows 2000)) = \<lceil>real_of_int (sint (2000 :: go_int)) / 1662\<rceil>
   \<and> \<lceil>real_of_int (sint (2000 :: go_int)) / 1662\<rceil> = 2
   \<and> sum_list (map snd (chunk_rows 2000)) = 2000"
proof -
  let ?img = "\<lparr>backing = replicate 128000 (0xFF :: byte), slice_len = 128000\<rparr>"
  let ?none = "\<lparr>backing = ([] :: byte list), slice_len = 0\<rparr>"
  let ?p = "\<lparr>p_w = [], p_width = 1, p_height = 1, p_underline = 0, p_emphasize = 0,
          p_upsidedown = 0, p_rotate = 0, p_reverse = 0, p_smooth = 0\<rparr>"
  have h: "(0 :: go_int) <s 2000" by (simp add: word_sless_alt)
  note t = Raster_chunks_partition [OF h]
  have r1: "reslice ?img (0 * 64) ((0 + 1662) * 64)
      = Some \<lparr>backing = replicate 128000 0xFF, slice_len = 106368\<rparr>"
    by (simp add: reslice_def word_sle_eq)
  have r2: "reslice ?img (1662 * 64) ((1662 + 338) * 64)
      = Some \<lparr>backing = replicate 21632 0xFF, slice_len = 21632\<rparr>"
    by (simp add: reslice_def word_sle_eq)
  have ok: "list_all (chunk_in_bounds 64 ?img) (Raster_chunks 2000 0)"
    by (simp only: Raster_chunks_2000 list.pred_inject chunk_in_bounds_def prod.case r1 r2) simp
  have b1: "chunk_buffers 512 64 ?img (0, 1662)
      = [Raster_header 512 64 1662, replicate 106368 0xFF, Raster_flush]"
    by (simp only: chunk_buffers_def prod.case r1 option.case) (simp add: contents_def)
  have b2: "chunk_buffers 512 64 ?img (1662, 338)
      = [Raster_header 512 64 338, replicate 21632 0xFF, Raster_flush]"
    by (simp only: chunk_buffers_def prod.case r2 option.case) (simp add: contents_def)
  have "Raster 512 2000 64 ?img ''graphics'' ?p =
      (Return (),
       ?p\<lparr>p_w := p_w ?p
          @ concat (map (chunk_buffers 512 64 ?img) (Raster_chunks 2000 0))\<rparr>)"
    using t [of 512 64 ?img ?p] ok by (simp only: if_True)
  then have good: "Raster 512 2000 64 ?img ''graphics'' ?p =
      (Return (),
       \<lparr>p_w = [Raster_header 512 64 1662, replicate 106368 0xFF, Raster_flush,
               Raster_header 512 64 338, replicate 21632 0xFF, Raster_flush],
        p_width = 1, p_height = 1, p_underline = 0, p_emphasize = 0,
        p_upsidedown = 0, p_rotate = 0, p_reverse = 0, p_smooth = 0\<rparr>)"
    by (simp only: Raster_chunks_2000 list.map concat.simps b1 b2) simp
  have pre: "(0 :: go_int) \<le>s 64
      \<and> sint (2000 :: go_int) * sint (64 :: go_int) \<le> int (length (backing ?img))
      \<and> int (length (backing ?img)) < 9223372036854775808"
    by (simp add: word_sle_eq)
  have "int (length (emitted ?p (snd (Raster 512 2000 64 ?img ''graphics'' ?p))))
        = 3 * \<lceil>real_of_int (sint (2000 :: go_int)) / 1662\<rceil>"
    and "concat (map (\<lambda>c. chunk_buffers 512 64 ?img c ! 1) (Raster_chunks 2000 0))
        = take (nat (sint (2000 :: go_int) * sint (64 :: go_int))) (backing ?img)"
    using t [of 512 64 ?img ?p] pre by blast+
  then have six: "int (length (emitted ?p (snd (Raster 512 2000 64 ?img ''graphics'' ?p)))) = 6"
    and pix: "concat (map (\<lambda>c. chunk_buffers 512 64 ?img c ! 1) (Raster_chunks 2000 0))
        = replicate 128000 0xFF"
    by (simp_all add: ceiling_div_1662)
  have r0: "reslice ?none (0 * 1) ((0 + 1662) * 1) = None"
    by (simp add: reslice_def word_sle_eq)
  have bad: "\<not> list_all (chunk_in_bounds 1 ?none) (Raster_chunks 2000 0)"
    and tw: "takeWhile (chunk_in_bounds 1 ?none) (Raster_chunks 2000 0) = []"
    by (simp_all only: Raster_chunks_2000 list.pred_inject takeWhile.simps chunk_in_bounds_def
        prod.case r0) simp_all
  have "Raster 8 2000 1 ?none ''graphics'' ?p =
      (Panic SliceBoundsOutOfRange,
       ?p\<lparr>p_w := p_w ?p
          @ concat (map (chunk_buffers 8 1 ?none)
               (takeWhile (chunk_in_bounds 1 ?none) (Raster_chunks 2000 0)))
          @ [Raster_header 8 1
               (snd (Raster_chunks 2000 0
                     ! length (takeWhile (chunk_in_bounds 1 ?none) (Raster_chunks 2000 0))))]\<rparr>)"
    using t [of 8 1 ?none ?p] bad by (simp only: if_False)
  then have panic: "Raster 8 2000 1 ?none ''graphics'' ?p =
      (Panic SliceBoundsOutOfRange,
       \<lparr>p_w = [Raster_header 8 1 1662],
        p_width = 1, p_height = 1, p_underline = 0, p_emphasize = 0,
        p_upsidedown = 0, p_rotate = 0, p_reverse = 0, p_smooth = 0\<rparr>)"
    by (simp only: tw) (simp add: Raster_chunks_2000)
  have rows: "chunk_rows 2000 = [(0, 1662), (1662, 338)]"
    by (simp add: chunk_rows_def Raster_chunks_2000)
  have cnt: "int (length (chunk_rows 2000)) = \<lceil>real_of_int (sint (2000 :: go_int)) / 1662\<rceil>"
    and tot: "sum_list (map snd (chunk_rows 2000)) = sint (2000 :: go_int)"
    using t [of 8 1 ?none ?p] by blast+
  have two: "\<lceil>real_of_int (sint (2000 :: go_int)) / 1662\<rceil> = 2"
    by (simp add: ceiling_div_1662)
  have tot': "sum_list (map snd (chunk_rows 2000)) = 2000"
    using tot by simp
  show ?thesis
    apply (intro conjI)
    subgoal by (rule h)
    subgoal using good by (simp only: Raster_header_512_1662 Raster_header_512_338 Raster_flush_def)
    subgoal using panic by (simp only: Raster_header_1662)
    subgoal by (rule six)
    subgoal by (rule pix)
    subgoal by (rule rows)
    subgoal by (rule cnt)
    subgoal by (rule two)
    subgoal by (rule tot')
    done
qed

section \<open>Style setters and \<open>Barcode\<close>\<close>

lemma byte_1_to_8:
  assumes "0 < (b :: byte)" and "b \<le> 8"
  shows "b = 1 \<or> b = 2 \<or> b = 3 \<or> b = 4 \<or> b = 5 \<or> b = 6 \<or> b = 7 \<or> b = 8"
proof -
  have "0 < unat b" using assms(1) by (simp add: word_less_nat_alt)
  moreover have "unat b \<le> 8" using assms(2) by (simp add: word_le_nat_alt)
  ultimately have "unat b = 1 \<or> unat b = 2 \<or> unat b = 3 \<or> unat b = 4 \<or> unat b = 5
      \<or> unat b = 6 \<or> unat b = 7 \<or> unat b = 8"
    by arith
  then show ?thesis by (simp add: word_unat_eq_iff)
qed

lemma fmtC_ascii: "n < 128 \<Longrightarrow> fmtC n = [of_nat n]"
  by (simp add: fmtC_def utf8_AppendRune_def)

lemma font_size_byte:
  assumes "0 < width" "width \<le> 8" "0 < height" "height \<le> (8 :: byte)"
  shows "fmtC (unat (push_bit 4 (width - 1) OR (height - 1)))
      = [push_bit 4 (width - 1) OR (height - 1)]"
proof -
  have "unat (push_bit 4 (width - 1) OR (height - 1)) < 128"
    using byte_1_to_8 [OF assms(1,2)] byte_1_to_8 [OF assms(3,4)]
    by (elim disjE) simp_all
  then show ?thesis by (simp add: fmtC_ascii)
qed

lemma byte_ge_1: "(1 \<le> (b :: byte)) = (0 < b)"
  by (simp add: word_le_nat_alt word_less_nat_alt) arith

lemma emitted_Write: "emitted p (Write buf p) = [buf]"
  by (simp add: emitted_def Write_def)

lemma emitted_self: "emitted p p = []"
  by (simp add: emitted_def)

lemma settings_Write: "settings (Write buf p) = settings p"
  by (simp add: settings_def Write_def)

lemma SetFontSize_valid:
  assumes "0 < width" "width \<le> 8" "0 < height" "height \<le> 8"
  shows "SetFontSize width height p =
    Write [0x1D, 0x21, push_bit 4 (width - 1) OR (height - 1)]
      (p\<lparr>p_width := width, p_height := height\<rparr>)"
  using assms font_size_byte [OF assms]
  by (simp add: SetFontSize_def SendFontSize_def Sprintf_c_def bytes_of_def)

lemma SetFontSize_invalid:
  "\<not> (0 < width \<and> width \<le> 8 \<and> 0 < height \<and> height \<le> 8) \<Longrightarrow> SetFontSize width height p = p"
  by (auto simp add: SetFontSize_def)

text \<open>
  Claim C4. \<open>SetFontSize width height\<close> with both arguments from 1 to 8 stores them as the
  font width and height, changes no other setting and writes one buffer, \<open>1D 21\<close> and the
  byte \<open>((width - 1) << 4) | (height - 1)\<close>. With an argument outside 1 to 8 it leaves the
  printer as it is and writes nothing.
\<close>

theorem SetFontSize_effect:
  "(1 \<le> width \<and> width \<le> 8 \<and> 1 \<le> height \<and> height \<le> 8 \<longrightarrow>
      p_width (SetFontSize width height p) = width
    \<and> p_height (SetFontSize width height p) = height
    \<and> emitted p (SetFontSize width height p)
        = [[0x1D, 0x21, push_bit 4 (width - 1) OR (height - 1)]]
    \<and> settings (SetFontSize width height p)
        = (settings p)\<lparr>p_width := width, p_height := height\<rparr>)
   \<and> (\<not> (1 \<le> width \<and> width \<le> 8 \<and> 1 \<le> height \<and> height \<le> 8) \<longrightarrow>
      SetFontSize width height p = p
    \<and> emitted p (SetFontSize width height p) = [])"
proof (cases "0 < width \<and> width \<le> 8 \<and> 0 < height \<and> height \<le> 8")
  case True
  then have "SetFontSize width height p =
      Write [0x1D, 0x21, push_bit 4 (width - 1) OR (height - 1)]
        (p\<lparr>p_width := width, p_height := height\<rparr>)"
    by (simp add: SetFontSize_valid)
  then show ?thesis
    using True by (simp add: byte_ge_1 emitted_def settings_def Write_def)
next
  case False
  then have "SetFontSize width height p = p" by (rule SetFontSize_invalid)
  then show ?thesis using False by (simp add: byte_ge_1 emitted_self)
qed

theorem SetFontSize_effect_witness:
  "(1 :: byte) \<le> 2 \<and> (2 :: byte) \<le> 8 \<and> (1 :: byte) \<le> 3 \<and> (3 :: byte) \<le> 8
   \<and> SetFontSize 2 3
        \<lparr>p_w = [], p_width = 1, p_height = 1, p_underline = 0, p_emphasize = 0,
         p_upsidedown = 0, p_rotate = 0, p_reverse = 0, p_smooth = 0\<rparr>
       = \<lparr>p_w = [[0x1D, 0x21, 0x12]], p_width = 2, p_height = 3, p_underline = 0,
          p_emphasize = 0, p_upsidedown = 0, p_rotate = 0, p_reverse = 0, p_smooth = 0\<rparr>
   \<and> emitted
        \<lparr>p_w = [], p_width = 1, p_height = 1, p_underline = 0, p_emphasize = 0,
         p_upsidedown = 0, p_rotate = 0, p_reverse = 0, p_smooth = 0\<rparr>
        (SetFontSize 2 3
          \<lparr>p_w = [], p_width = 1, p_height = 1, p_underline = 0, p_emphasize = 0,
           p_upsidedown = 0, p_rotate = 0, p_reverse = 0, p_smooth = 0\<rparr>)
       = [[0x1D, 0x21, 0x12]]
   \<and> \<not> ((1 :: byte) \<le> 9 \<and> (9 :: byte) \<le> 8 \<and> (1 :: byte) \<le> 1 \<and> (1 :: byte) \<le> 8)
   \<and> SetFontSize 9 1
        \<lparr>p_w = [], p_width = 1, p_height = 1, p_underline = 0, p_emphasize = 0,
         p_upsidedown = 0, p_rotate = 0, p_reverse = 0, p_smooth = 0\<rparr>
       = \<lparr>p_w = [], p_width = 1, p_height = 1, p_underline = 0, p_emphasize = 0,
          p_upsidedown = 0, p_rotate = 0, p_reverse = 0, p_smooth = 0\<rparr>"
proof -
  let ?p = "\<lparr>p_w = [], p_width = 1, p_height = 1, p_underline = 0, p_emphasize = 0,
         p_upsidedown = 0, p_rotate = 0, p_reverse = 0, p_smooth = 0\<rparr>"
  have v: "(1 :: byte) \<le> 2 \<and> (2 :: byte) \<le> 8 \<and> (1 :: byte) \<le> 3 \<and> (3 :: byte) \<le> 8"
    by simp
  have i: "\<not> ((1 :: byte) \<le> 9 \<and> (9 :: byte) \<le> 8 \<and> (1 :: byte) \<le> 1 \<and> (1 :: byte) \<le> 8)"
    by simp
  from SetFontSize_effect [of 2 3 ?p] v
  have a: "p_width (SetFontSize 2 3 ?p) = 2" "p_height (SetFontSize 2 3 ?p) = 3"
    "emitted ?p (SetFontSize 2 3 ?p) = [[0x1D, 0x21, push_bit 4 (2 - 1) OR (3 - 1)]]"
    "settings (SetFontSize 2 3 ?p) = (settings ?p)\<lparr>p_width := 2, p_height := 3\<rparr>"
    by blast+
  have b: "[[0x1D, 0x21, push_bit 4 (2 - 1) OR (3 - 1)]] = [[0x1D, 0x21, 0x12 :: byte]]"
    by simp
  have "p_w (SetFontSize 2 3 ?p) = emitted ?p (SetFontSize 2 3 ?p)"
    by (simp add: emitted_def)
  then have w: "p_w (SetFontSize 2 3 ?p) = [[0x1D, 0x21, 0x12]]"
    by (simp only: a(3) b)
  have "SetFontSize 2 3 ?p = (settings (SetFontSize 2 3 ?p))\<lparr>p_w := p_w (SetFontSize 2 3 ?p)\<rparr>"
    by (simp add: settings_def)
  then have e: "SetFontSize 2 3 ?p
       = \<lparr>p_w = [[0x1D, 0x21, 0x12]], p_width = 2, p_height = 3, p_underline = 0,
          p_emphasize = 0, p_upsidedown = 0, p_rotate = 0, p_reverse = 0, p_smooth = 0\<rparr>"
    by (simp only: a(4) w) (simp add: settings_def)
  from SetFontSize_effect [of 9 1 ?p] i
  have n: "SetFontSize 9 1 ?p = ?p"
    by blast
  show ?thesis
    using v i e n a(3) b by simp
qed

text \<open>
  Claim C9. Calling a style setter twice with the same value writes the same command
  frame both times, one buffer each, and the second call leaves the stored settings as
  the first left them. The same holds for \<open>SetFontSize\<close>, whether it accepts its
  arguments (the frame twice) or not (nothing twice).
\<close>

theorem setters_idempotent:
  "emitted p (SetUnderline v p) = [Sprintf_c [CHR 0x1B, CHR ''-''] (unat v)]
   \<and> emitted (SetUnderline v p) (SetUnderline v (SetUnderline v p)) = emitted p (SetUnderline v p)
   \<and> settings (SetUnderline v (SetUnderline v p)) = settings (SetUnderline v p)
   \<and> emitted p (SetEmphasize v p) = [Sprintf_c [CHR 0x1B, CHR ''G''] (unat v)]
   \<and> emitted (SetEmphasize v p) (SetEmphasize v (SetEmphasize v p)) = emitted p (SetEmphasize v p)
   \<and> settings (SetEmphasize v (SetEmphasize v p)) = settings (SetEmphasize v p)
   \<and> emitted p (SetUpsidedown v p) = [Sprintf_c [CHR 0x1B, CHR ''{''] (unat v)]
   \<and> emitted (SetUpsidedown v p) (SetUpsidedown v (SetUpsidedown v p))
       = emitted p (SetUpsidedown v p)
   \<and> settings (SetUpsidedown v (SetUpsidedown v p)) = settings (SetUpsidedown v p)
   \<and> emitted p (SetRotate v p) = [Sprintf_c [CHR 0x1B, CHR ''R''] (unat v)]
   \<and> emitted (SetRotate v p) (SetRotate v (SetRotate v p)) = emitted p (SetRotate v p)
   \<and> settings (SetRotate v (SetRotate v p)) = settings (SetRotate v p)
   \<and> emitted p (SetReverse v p) = [Sprintf_c [CHR 0x1D, CHR ''B''] (unat v)]
   \<and> emitted (SetReverse v p) (SetReverse v (SetReverse v p)) = emitted p (SetReverse v p)
   \<and> settings (SetReverse v (SetReverse v p)) = settings (SetReverse v p)
   \<and> emitted p (SetSmooth v p) = [Sprintf_c [CHR 0x1D, CHR ''b''] (unat v)]
   \<and> emitted (SetSmooth v p) (SetSmooth v (SetSmooth v p)) = emitted p (SetSmooth v p)
   \<and> settings (SetSmooth v (SetSmooth v p)) = settings (SetSmooth v p)
   \<and> emitted (SetFontSize width height p) (SetFontSize width height (SetFontSize width height p))
       = emitted p (SetFontSize width height p)
   \<and> settings (SetFontSize width height (SetFontSize width height p))
       = settings (SetFontSize width height p)"
proof -
  have ul: "emitted p (SetUnderline v p) = [Sprintf_c [CHR 0x1B, CHR ''-''] (unat v)]
      \<and> emitted (SetUnderline v p) (SetUnderline v (SetUnderline v p)) = emitted p (SetUnderline v p)
      \<and> settings (SetUnderline v (SetUnderline v p)) = settings (SetUnderline v p)"
    by (simp add: SetUnderline_def SendUnderline_def emitted_def settings_def Write_def)
  have em: "emitted p (SetEmphasize v p) = [Sprintf_c [CHR 0x1B, CHR ''G''] (unat v)]
      \<and> emitted (SetEmphasize v p) (SetEmphasize v (SetEmphasize v p)) = emitted p (SetEmphasize v p)
      \<and> settings (SetEmphasize v (SetEmphasize v p)) = settings (SetEmphasize v p)"
    by (simp add: SetEmphasize_def SendEmphasize_def emitted_def settings_def Write_def)
  have ud: "emitted p (SetUpsidedown v p) = [Sprintf_c [CHR 0x1B, CHR ''{''] (unat v)]
      \<and> emitted (SetUpsidedown v p) (SetUpsidedown v (SetUpsidedown v p))
          = emitted p (SetUpsidedown v p)
      \<and> settings (SetUpsidedown v (SetUpsidedown v p)) = settings (SetUpsidedown v p)"
    by (simp add: SetUpsidedown_def SendUpsidedown_def emitted_def settings_def Write_def)
  have ro: "emitted p (SetRotate v p) = [Sprintf_c [CHR 0x1B, CHR ''R''] (unat v)]
      \<and> emitted (SetRotate v p) (SetRotate v (SetRotate v p)) = emitted p (SetRotate v p)
      \<and> settings (SetRotate v (SetRotate v p)) = settings (SetRotate v p)"
    by (simp add: SetRotate_def SendRotate_def emitted_def settings_def Write_def)
  have re: "emitted p (SetReverse v p) = [Sprintf_c [CHR 0x1D, CHR ''B''] (unat v)]
      \<and> emitted (SetReverse v p) (SetReverse v (SetReverse v p)) = emitted p (SetReverse v p)
      \<and> settings (SetReverse v (SetReverse v p)) = settings (SetReverse v p)"
    by (simp add: SetReverse_def SendReverse_def emitted_def settings_def Write_def)
  have sm: "emitted p (SetSmooth v p) = [Sprintf_c [CHR 0x1D, CHR ''b''] (unat v)]
      \<and> emitted (SetSmooth v p) (SetSmooth v (SetSmooth v p)) = emitted p (SetSmooth v p)
      \<and> settings (SetSmooth v (SetSmooth v p)) = settings (SetSmooth v p)"
    by (simp add: SetSmooth_def SendSmooth_def emitted_def settings_def Write_def)
  have fs: "emitted (SetFontSize width height p)
        (SetFontSize width height (SetFontSize width height p))
        = emitted p (SetFontSize width height p)
      \<and> settings (SetFontSize width height (SetFontSize width height p))
        = settings (SetFontSize width height p)"
  proof (cases "0 < width \<and> width \<le> 8 \<and> 0 < height \<and> height \<le> 8")
    case True
    then show ?thesis
      by (simp add: SetFontSize_valid emitted_def settings_def Write_def)
  next
    case False
    then show ?thesis
      by (simp add: SetFontSize_invalid emitted_self)
  qed
  show ?thesis using ul em ud ro re sm fs by blast
qed

theorem setters_idempotent_witness:
  "emitted
     \<lparr>p_w = [], p_width = 1, p_height = 1, p_underline = 0, p_emphasize = 0,
      p_upsidedown = 0, p_rotate = 0, p_reverse = 0, p_smooth = 0\<rparr>
     (SetUnderline 1
       \<lparr>p_w = [], p_width = 1, p_height = 1, p_underline = 0, p_emphasize = 0,
        p_upsidedown = 0, p_rotate = 0, p_reverse = 0, p_smooth = 0\<rparr>)
     = [[0x1B, 0x2D, 0x01]]
   \<and> emitted
     (SetUnderline 1
       \<lparr>p_w = [], p_width = 1, p_height = 1, p_underline = 0, p_emphasize = 0,
        p_upsidedown = 0, p_rotate = 0, p_reverse = 0, p_smooth = 0\<rparr>)
     (SetUnderline 1 (SetUnderline 1
       \<lparr>p_w = [], p_width = 1, p_height = 1, p_underline = 0, p_emphasize = 0,
        p_upsidedown = 0, p_rotate = 0, p_reverse = 0, p_smooth = 0\<rparr>))
     = [[0x1B, 0x2D, 0x01]]"
proof -
  let ?p = "\<lparr>p_w = [], p_width = 1, p_height = 1, p_underline = 0, p_emphasize = 0,
      p_upsidedown = 0, p_rotate = 0, p_reverse = 0, p_smooth = 0\<rparr>"
  have f: "Sprintf_c [CHR 0x1B, CHR ''-''] (unat (1 :: byte)) = [0x1B, 0x2D, 0x01]"
    by (simp add: Sprintf_c_def bytes_of_def fmtC_ascii)
  from setters_idempotent [of ?p 1]
  have "emitted ?p (SetUnderline 1 ?p) = [Sprintf_c [CHR 0x1B, CHR ''-''] (unat (1 :: byte))]"
    and "emitted (SetUnderline 1 ?p) (SetUnderline 1 (SetUnderline 1 ?p))
      = emitted ?p (SetUnderline 1 ?p)"
    by blast+
  then show ?thesis by (simp only: f)
qed

text \<open>
  Claim C8 says that every style setter validates its input and keeps an invalid value
  out of the state. The six toggle setters have no check at all: \<open>SetUnderline 5\<close> stores 5.
\<close>

theorem setters_validate_counterexample:
  "p_underline
     (SetUnderline 5
       \<lparr>p_w = [], p_width = 1, p_height = 1, p_underline = 0, p_emphasize = 0,
        p_upsidedown = 0, p_rotate = 0, p_reverse = 0, p_smooth = 0\<rparr>) = 5
   \<and> (5 :: byte) \<noteq> 0 \<and> (5 :: byte) \<noteq> 1"
  by (simp add: SetUnderline_def SendUnderline_def Write_def)

text \<open>
  Claim C8 as amended. Of the style setters only \<open>SetFontSize\<close> validates its input: with
  a font dimension outside 1 to 8 the stored settings stay as they are. The toggle setters
  \<open>SetUnderline\<close>, \<open>SetEmphasize\<close>, \<open>SetUpsidedown\<close>, \<open>SetRotate\<close>, \<open>SetReverse\<close> and
  \<open>SetSmooth\<close> store the byte they are given, whatever its value.
\<close>

theorem setters_store_unchecked:
  "p_underline (SetUnderline v p) = v
   \<and> p_emphasize (SetEmphasize v p) = v
   \<and> p_upsidedown (SetUpsidedown v p) = v
   \<and> p_rotate (SetRotate v p) = v
   \<and> p_reverse (SetReverse v p) = v
   \<and> p_smooth (SetSmooth v p) = v
   \<and> (\<not> (1 \<le> width \<and> width \<le> 8 \<and> 1 \<le> height \<and> height \<le> 8) \<longrightarrow>
        settings (SetFontSize width height p) = settings p)"
proof -
  have "settings (SetFontSize width height p) = settings p"
    if "\<not> (1 \<le> width \<and> width \<le> 8 \<and> 1 \<le> height \<and> height \<le> 8)"
    using that SetFontSize_invalid [of width height p] by (simp add: byte_ge_1)
  then show ?thesis
    by (simp add: SetUnderline_def SendUnderline_def SetEmphasize_def SendEmphasize_def
        SetUpsidedown_def SendUpsidedown_def SetRotate_def SendRotate_def
        SetReverse_def SendReverse_def SetSmooth_def SendSmooth_def Write_def)
qed

theorem setters_store_unchecked_witness:
  "p_smooth
     (SetSmooth 200
       \<lparr>p_w = [], p_width = 1, p_height = 1, p_underline = 0, p_emphasize = 0,
        p_upsidedown = 0, p_rotate = 0, p_reverse = 0, p_smooth = 0\<rparr>) = 200
   \<and> \<not> ((1 :: byte) \<le> 0 \<and> (0 :: byte) \<le> 8 \<and> (1 :: byte) \<le> 3 \<and> (3 :: byte) \<le> 8)
   \<and> settings
     (SetFontSize 0 3
       \<lparr>p_w = [], p_width = 1, p_height = 1, p_underline = 0, p_emphasize = 0,
        p_upsidedown = 0, p_rotate = 0, p_reverse = 0, p_smooth = 0\<rparr>)
     = settings
       \<lparr>p_w = [], p_width = 1, p_height = 1, p_underline = 0, p_emphasize = 0,
        p_upsidedown = 0, p_rotate = 0, p_reverse = 0, p_smooth = 0\<rparr>"
proof -
  let ?p = "\<lparr>p_w = [], p_width = 1, p_height = 1, p_underline = 0, p_emphasize = 0,
        p_upsidedown = 0, p_rotate = 0, p_reverse = 0, p_smooth = 0\<rparr>"
  have i: "\<not> ((1 :: byte) \<le> 0 \<and> (0 :: byte) \<le> 8 \<and> (1 :: byte) \<le> 3 \<and> (3 :: byte) \<le> 8)"
    by simp
  from setters_store_unchecked [of 200 ?p 0 3] i
  have "p_smooth (SetSmooth 200 ?p) = 200"
    and "settings (SetFontSize 0 3 ?p) = settings ?p"
    by blast+
  then show ?thesis using i by blast
qed

lemma SetAlign_center: "SetAlign ''center'' p = Write [0x1B, 0x61, 0x01] p"
  by (simp add: SetAlign_def Sprintf_c_def bytes_of_def fmtC_ascii)

lemma bytes_of_append: "bytes_of (xs @ ys) = bytes_of xs @ bytes_of ys"
  by (simp add: bytes_of_def)

lemma bytes_of_frame: "bytes_of [CHR 0x1D, CHR ''k''] = [0x1D, 0x6B]"
  by (simp add: bytes_of_def)

lemma bytes_of_NUL: "bytes_of [CHR 0x00] = [0x00]"
  by (simp add: bytes_of_def)

lemma emitted_Write2: "emitted p (Write b (Write a (Reset p))) = [a, b]"
  by (simp add: emitted_def Write_def Reset_def)

lemma emitted_Write3: "emitted p (Write c (Write b (Write a (Reset p)))) = [a, b, c]"
  by (simp add: emitted_def Write_def Reset_def)

lemma Barcode_emitted_above:
  assumes "69 <s format"
  shows "emitted p (Barcode barcode format p) =
     [[0x1B, 0x61, 0x01],
      [0x1D, 0x6B] @ bytes_of (Barcode_code format)
        @ bytes_of (decimal (length barcode)) @ bytes_of barcode,
      bytes_of barcode]"
proof -
  have "Barcode barcode format p =
      Write (bytes_of barcode)
        (Write (bytes_of ([CHR 0x1D, CHR ''k''] @ (Barcode_code format
                  @ decimal (length barcode) @ barcode)))
          (Write [0x1B, 0x61, 0x01] (Reset p)))"
    using assms by (simp add: Barcode_def Let_def SetAlign_center)
  then show ?thesis
    by (simp only: emitted_Write3 bytes_of_frame bytes_of_append)
qed

lemma Barcode_emitted_below:
  assumes "format <s 69"
  shows "emitted p (Barcode barcode format p) =
     [[0x1B, 0x61, 0x01],
      [0x1D, 0x6B] @ bytes_of (Barcode_code format) @ bytes_of barcode @ [0x00],
      bytes_of barcode]"
proof -
  have "\<not> 69 <s format" using assms by (simp add: word_sless_alt)
  then have "Barcode barcode format p =
      Write (bytes_of barcode)
        (Write (bytes_of ([CHR 0x1D, CHR ''k''] @ (Barcode_code format @ (barcode @ [CHR 0x00]))))
          (Write [0x1B, 0x61, 0x01] (Reset p)))"
    using assms by (simp add: Barcode_def Let_def SetAlign_center)
  then show ?thesis
    by (simp only: emitted_Write3 bytes_of_frame bytes_of_append bytes_of_NUL)
qed

lemma Barcode_emitted_69:
  "emitted p (Barcode barcode 69 p) = [[0x1B, 0x61, 0x01], bytes_of barcode]"
proof -
  have "\<not> (69 :: go_int) <s 69" by (simp add: word_sless_alt)
  then have "Barcode barcode 69 p =
      Write (bytes_of barcode) (Write [0x1B, 0x61, 0x01] (Reset p))"
    by (simp add: Barcode_def Let_def SetAlign_center)
  then show ?thesis
    by (simp only: emitted_Write2)
qed

text \<open>
  Claim C5 says that every call of \<open>Barcode\<close> writes one of the two framings. The format 69
  is in neither branch: the call writes the alignment command and the bare barcode.
\<close>

theorem Barcode_framing_counterexample:
  "emitted
     \<lparr>p_w = [], p_width = 1, p_height = 1, p_underline = 0, p_emphasize = 0,
      p_upsidedown = 0, p_rotate = 0, p_reverse = 0, p_smooth = 0\<rparr>
     (Barcode ''A'' 69
       \<lparr>p_w = [], p_width = 1, p_height = 1, p_underline = 0, p_emphasize = 0,
        p_upsidedown = 0, p_rotate = 0, p_reverse = 0, p_smooth = 0\<rparr>)
   = [[0x1B, 0x61, 0x01], [0x41]]"
  by (simp add: Barcode_emitted_69 bytes_of_def)

text \<open>
  Claim C5 as amended. After the alignment command, \<open>Barcode\<close> writes for a format above 69
  the length-prefixed framing (\<open>1D 6B\<close>, the symbology byte, the length of the barcode in
  decimal digits, the barcode), for a format below 69 the NUL-terminated framing (\<open>1D 6B\<close>,
  the symbology byte, the barcode, a NUL), and for the format 69 no framing; the bare
  barcode follows in a buffer of its own in all three cases. So exactly one framing is
  written for every format but 69.
\<close>

theorem Barcode_framing:
  "(69 <s format \<longrightarrow>
      emitted p (Barcode barcode format p) =
        [[0x1B, 0x61, 0x01],
         [0x1D, 0x6B] @ bytes_of (Barcode_code format)
           @ bytes_of (decimal (length barcode)) @ bytes_of barcode,
         bytes_of barcode])
   \<and> (format <s 69 \<longrightarrow>
      emitted p (Barcode barcode format p) =
        [[0x1B, 0x61, 0x01],
         [0x1D, 0x6B] @ bytes_of (Barcode_code format) @ bytes_of barcode @ [0x00],
         bytes_of barcode])
   \<and> (format = 69 \<longrightarrow>
      emitted p (Barcode barcode format p) = [[0x1B, 0x61, 0x01], bytes_of barcode])"
  using Barcode_emitted_above [of format p barcode] Barcode_emitted_below [of format p barcode]
    Barcode_emitted_69 [of p barcode]
  by blast

theorem Barcode_framing_witness:
  "(69 :: go_int) <s 73
   \<and> emitted
     \<lparr>p_w = [], p_width = 1, p_height = 1, p_underline = 0, p_emphasize = 0,
      p_upsidedown = 0, p_rotate = 0, p_reverse = 0, p_smooth = 0\<rparr>
     (Barcode ''{B12'' 73
       \<lparr>p_w = [], p_width = 1, p_height = 1, p_underline = 0, p_emphasize = 0,
        p_upsidedown = 0, p_rotate = 0, p_reverse = 0, p_smooth = 0\<rparr>)
     = [[0x1B, 0x61, 0x01],
        [0x1D, 0x6B, 0x49, 0x34, 0x7B, 0x42, 0x31, 0x32],
        [0x7B, 0x42, 0x31, 0x32]]
   \<and> (2 :: go_int) <s 69
   \<and> emitted
     \<lparr>p_w = [], p_width = 1, p_height = 1, p_underline = 0, p_emphasize = 0,
      p_upsidedown = 0, p_rotate = 0, p_reverse = 0, p_smooth = 0\<rparr>
     (Barcode ''12'' 2
       \<lparr>p_w = [], p_width = 1, p_height = 1, p_underline = 0, p_emphasize = 0,
        p_upsidedown = 0, p_rotate = 0, p_reverse = 0, p_smooth = 0\<rparr>)
     = [[0x1B, 0x61, 0x01], [0x1D, 0x6B, 0x02, 0x31, 0x32, 0x00], [0x31, 0x32]]
   \<and> emitted
     \<lparr>p_w = [], p_width = 1, p_height = 1, p_underline = 0, p_emphasize = 0,
      p_upsidedown = 0, p_rotate = 0, p_reverse = 0, p_smooth = 0\<rparr>
     (Barcode ''12'' 69
       \<lparr>p_w = [], p_width = 1, p_height = 1, p_underline = 0, p_emphasize = 0,
        p_upsidedown = 0, p_rotate = 0, p_reverse = 0, p_smooth = 0\<rparr>)
     = [[0x1B, 0x61, 0x01], [0x31, 0x32]]"
proof -
  let ?p = "\<lparr>p_w = [], p_width = 1, p_height = 1, p_underline = 0, p_emphasize = 0,
      p_upsidedown = 0, p_rotate = 0, p_reverse = 0, p_smooth = 0\<rparr>"
  have h: "(69 :: go_int) <s 73" "(2 :: go_int) <s 69" by (simp_all add: word_sless_alt)
  have c: "bytes_of (Barcode_code 73) = [0x49]" "bytes_of (Barcode_code 2) = [0x02]"
    "bytes_of (decimal (length ''{B12'')) = [0x34]"
    "bytes_of ''{B12'' = [0x7B, 0x42, 0x31, 0x32]" "bytes_of ''12'' = [0x31, 0x32]"
    by code_simp+
  from Barcode_framing [of 73 ?p "''{B12''"] h(1)
  have a: "emitted ?p (Barcode ''{B12'' 73 ?p) =
        [[0x1B, 0x61, 0x01],
         [0x1D, 0x6B] @ bytes_of (Barcode_code 73)
           @ bytes_of (decimal (length ''{B12'')) @ bytes_of ''{B12'',
         bytes_of ''{B12'']"
    by blast
  from Barcode_framing [of 2 ?p "''12''"] h(2)
  have b: "emitted ?p (Barcode ''12'' 2 ?p) =
        [[0x1B, 0x61, 0x01],
         [0x1D, 0x6B] @ bytes_of (Barcode_code 2) @ bytes_of ''12'' @ [0x00],
         bytes_of ''12'']"
    by blast
  have a': "emitted ?p (Barcode ''{B12'' 73 ?p) =
        [[0x1B, 0x61, 0x01], [0x1D, 0x6B, 0x49, 0x34, 0x7B, 0x42, 0x31, 0x32],
         [0x7B, 0x42, 0x31, 0x32]]"
    using a by (simp only: c append.simps)
  have b': "emitted ?p (Barcode ''12'' 2 ?p) =
        [[0x1B, 0x61, 0x01], [0x1D, 0x6B, 0x02, 0x31, 0x32, 0x00], [0x31, 0x32]]"
    using b by (simp only: c append.simps)
  from Barcode_framing [of 69 ?p "''12''"]
  have "emitted ?p (Barcode ''12'' 69 ?p) = [[0x1B, 0x61, 0x01], bytes_of ''12'']"
    by blast
  then have n: "emitted ?p (Barcode ''12'' 69 ?p) = [[0x1B, 0x61, 0x01], [0x31, 0x32]]"
    by (simp only: c)
  show ?thesis using h a' b' n by blast
qed

text \<open>
  Claim C10. For a format below 69 \<open>Barcode\<close> writes the barcode twice: once inside the
  NUL-terminated framing and once more, bare, in the buffer that follows it. For the
  format 69 it writes no framing, only that last buffer (after the alignment command,
  which every call writes first).
\<close>

theorem Barcode_payload_twice:
  "(format <s 69 \<longrightarrow>
      drop 1 (emitted p (Barcode barcode format p)) =
        [[0x1D, 0x6B] @ bytes_of (Barcode_code format) @ bytes_of barcode @ [0x00],
         bytes_of barcode])
   \<and> (format = 69 \<longrightarrow>
      drop 1 (emitted p (Barcode barcode format p)) = [bytes_of barcode])
   \<and> (format <s 69 \<or> format = 69 \<longrightarrow>
      take 1 (emitted p (Barcode barcode format p)) = [[0x1B, 0x61, 0x01]])"
  using Barcode_emitted_below [of format p barcode] Barcode_emitted_69 [of p barcode]
  by auto

theorem Barcode_payload_twice_witness:
  "(4 :: go_int) <s 69
   \<and> drop 1 (emitted
     \<lparr>p_w = [], p_width = 1, p_height = 1, p_underline = 0, p_emphasize = 0,
      p_upsidedown = 0, p_rotate = 0, p_reverse = 0, p_smooth = 0\<rparr>
     (Barcode ''AB'' 4
       \<lparr>p_w = [], p_width = 1, p_height = 1, p_underline = 0, p_emphasize = 0,
        p_upsidedown = 0, p_rotate = 0, p_reverse = 0, p_smooth = 0\<rparr>))
     = [[0x1D, 0x6B, 0x04, 0x41, 0x42, 0x00], [0x41, 0x42]]
   \<and> drop 1 (emitted
     \<lparr>p_w = [], p_width = 1, p_height = 1, p_underline = 0, p_emphasize = 0,
      p_upsidedown = 0, p_rotate = 0, p_reverse = 0, p_smooth = 0\<rparr>
     (Barcode ''AB'' 69
       \<lparr>p_w = [], p_width = 1, p_height = 1, p_underline = 0, p_emphasize = 0,
        p_upsidedown = 0, p_rotate = 0, p_reverse = 0, p_smooth = 0\<rparr>))
     = [[0x41, 0x42]]"
proof -
  let ?p = "\<lparr>p_w = [], p_width = 1, p_height = 1, p_underline = 0, p_emphasize = 0,
      p_upsidedown = 0, p_rotate = 0, p_reverse = 0, p_smooth = 0\<rparr>"
  have h: "(4 :: go_int) <s 69" by (simp add: word_sless_alt)
  have c: "bytes_of (Barcode_code 4) = [0x04]" "bytes_of ''AB'' = [0x41, 0x42]"
    by code_simp+
  from Barcode_payload_twice [of 4 ?p "''AB''"] h
  have a: "drop 1 (emitted ?p (Barcode ''AB'' 4 ?p)) =
        [[0x1D, 0x6B] @ bytes_of (Barcode_code 4) @ bytes_of ''AB'' @ [0x00], bytes_of ''AB'']"
    by blast
  from Barcode_payload_twice [of 69 ?p "''AB''"]
  have b: "drop 1 (emitted ?p (Barcode ''AB'' 69 ?p)) = [bytes_of ''AB'']"
    by blast
  have a': "drop 1 (emitted ?p (Barcode ''AB'' 4 ?p)) =
        [[0x1D, 0x6B, 0x04, 0x41, 0x42, 0x00], [0x41, 0x42]]"
    using a by (simp only: c append.simps)
  have b': "drop 1 (emitted ?p (Barcode ''AB'' 69 ?p)) = [[0x41, 0x42]]"
    using b by (simp only: c)
  show ?thesis using h a' b' by blast
qed

section \<open>Malformed numeric parameters of \<open>Text\<close>\<close>

lemma Text_font_no_panic:
  "(\<And>f. params ''font'' = Some f \<Longrightarrow> 6 \<le> length f) \<Longrightarrow> fst (Text_font params p) = None"
  by (auto simp: Text_font_def split: option.splits)

lemma fst_Text_width: "fst (Text_width params p) = numeric_error params ''width''"
  by (simp add: Text_width_def numeric_error_def split: option.splits sum.splits)

lemma fst_Text_height: "fst (Text_height params p) = numeric_error params ''height''"
  by (simp add: Text_height_def numeric_error_def split: option.splits sum.splits)

lemma fst_Text_x: "fst (Text_x params p) = numeric_error params ''x''"
  by (simp add: Text_x_def numeric_error_def split: option.splits sum.splits)

lemma fst_Text_y: "fst (Text_y params p) = numeric_error params ''y''"
  by (simp add: Text_y_def numeric_error_def split: option.splits sum.splits)

lemma snd_Text_width_error:
  "numeric_error params ''width'' \<noteq> None \<Longrightarrow> snd (Text_width params p) = p"
  by (auto simp add: Text_width_def numeric_error_def split: option.splits sum.splits)

lemma snd_Text_height_error:
  "numeric_error params ''height'' \<noteq> None \<Longrightarrow> snd (Text_height params p) = p"
  by (auto simp add: Text_height_def numeric_error_def split: option.splits sum.splits)

lemma snd_Text_x_error:
  "numeric_error params ''x'' \<noteq> None \<Longrightarrow> snd (Text_x params p) = p"
  by (auto simp add: Text_x_def numeric_error_def split: option.splits sum.splits)

lemma snd_Text_y_error:
  "numeric_error params ''y'' \<noteq> None \<Longrightarrow> snd (Text_y params p) = p"
  by (auto simp add: Text_y_def numeric_error_def split: option.splits sum.splits)

lemma snd_Text_absent:
  "params ''width'' = None \<Longrightarrow> snd (Text_width params p) = p"
  "params ''height'' = None \<Longrightarrow> snd (Text_height params p) = p"
  "params ''x'' = None \<Longrightarrow> snd (Text_x params p) = p"
  "params ''y'' = None \<Longrightarrow> snd (Text_y params p) = p"
  by (simp_all add: Text_width_def Text_height_def Text_x_def Text_y_def)

text \<open>
  \<open>Text\<close> written as its steps one after the other: the printer before each numeric
  parameter, and the result in terms of the errors of the four.
\<close>

lemma Text_unfold:
  assumes "fst (Text_font params (Text_styles params p)) = None"
  shows "Text ti params text p =
    (let p2 = Text_double params (snd (Text_font params (Text_styles params p)));
         p3 = snd (Text_width params p2);
         p4 = snd (Text_height params p3);
         p5 = snd (Text_x params p4);
         p6 = snd (Text_y params p5)
     in case numeric_error params ''width'' of Some e \<Rightarrow> (Return (Some e), p3) | None \<Rightarrow>
        (case numeric_error params ''height'' of Some e \<Rightarrow> (Return (Some e), p4) | None \<Rightarrow>
        (case numeric_error params ''x'' of Some e \<Rightarrow> (Return (Some e), p5) | None \<Rightarrow>
        (case numeric_error params ''y'' of Some e \<Rightarrow> (Return (Some e), p6) | None \<Rightarrow>
           (Return None,
            if 0 < length text then WriteString ti (Replace textReplacer text) p6 else p6)))))"
proof -
  obtain p1 where f: "Text_font params (Text_styles params p) = (None, p1)"
    using assms by (cases "Text_font params (Text_styles params p)") simp
  obtain e2 p2 where w: "Text_width params (Text_double params p1) = (e2, p2)"
    by (cases "Text_width params (Text_double params p1)")
  obtain e3 p3 where h: "Text_height params p2 = (e3, p3)"
    by (cases "Text_height params p2")
  obtain e4 p4 where x: "Text_x params p3 = (e4, p4)"
    by (cases "Text_x params p3")
  obtain e5 p5 where y: "Text_y params p4 = (e5, p5)"
    by (cases "Text_y params p4")
  have e: "e2 = numeric_error params ''width''" "e3 = numeric_error params ''height''"
    "e4 = numeric_error params ''x''" "e5 = numeric_error params ''y''"
    using fst_Text_width [of params "Text_double params p1"] fst_Text_height [of params p2]
      fst_Text_x [of params p3] fst_Text_y [of params p4] w h x y
    by simp_all
  show ?thesis
    unfolding Text_def Let_def f
    by (simp add: w h x y e [symmetric] split: option.splits)
qed

lemma Text_styles_absent:
  assumes "\<forall>k \<in> set style_keys. params k = None"
  shows "Text_styles params p = p" and "Text_font params p = (None, p)"
    and "Text_double params p = p"
  using assms
  by (simp_all add: style_keys_def Text_styles_def Text_font_def Text_double_def toggle_on_def)

text \<open>
  Claim C6 says that a malformed numeric parameter makes \<open>Text\<close> return an error before
  any byte is written. \<open>Text\<close> converts the parameters one after the other and returns at
  the first that fails: with a width of 2 and a height that is no number, the font-size
  command for the width is written before the error of the height is returned.
\<close>

theorem Text_malformed_counterexample:
  "Text (\<lambda>s. []) [''width'' \<mapsto> ''2'', ''height'' \<mapsto> ''tall''] ''hi''
     \<lparr>p_w = [], p_width = 1, p_height = 1, p_underline = 0, p_emphasize = 0,
      p_upsidedown = 0, p_rotate = 0, p_reverse = 0, p_smooth = 0\<rparr>
   = (Return (Some ErrSyntax),
      \<lparr>p_w = [[0x1D, 0x21, 0x10]], p_width = 2, p_height = 1, p_underline = 0,
       p_emphasize = 0, p_upsidedown = 0, p_rotate = 0, p_reverse = 0, p_smooth = 0\<rparr>)"
proof -
  let ?params = "[''width'' \<mapsto> ''2'', ''height'' \<mapsto> ''tall'']"
  let ?p = "\<lparr>p_w = [], p_width = 1, p_height = 1, p_underline = 0, p_emphasize = 0,
      p_upsidedown = 0, p_rotate = 0, p_reverse = 0, p_smooth = 0\<rparr>"
  have st: "\<forall>k \<in> set style_keys. ?params k = None"
    by (simp add: style_keys_def)
  note a = Text_styles_absent [OF st]
  have nf: "fst (Text_font ?params (Text_styles ?params ?p)) = None"
    by (simp add: a)
  have n2: "Atoi ''2'' = Inr 2" and nt: "Atoi ''tall'' = Inl ErrSyntax"
    by (simp_all add: Atoi_def is_digit_def)
  have w: "numeric_error ?params ''width'' = None"
    by (simp add: numeric_error_def n2)
  have h: "numeric_error ?params ''height'' = Some ErrSyntax"
    by (simp add: numeric_error_def nt)
  have pw: "snd (Text_width ?params ?p) =
      \<lparr>p_w = [[0x1D, 0x21, 0x10]], p_width = 2, p_height = 1, p_underline = 0,
       p_emphasize = 0, p_upsidedown = 0, p_rotate = 0, p_reverse = 0, p_smooth = 0\<rparr>"
    by (simp add: Text_width_def n2 to_byte_def SetFontSize_def SendFontSize_def Sprintf_c_def
        bytes_of_def fmtC_def utf8_AppendRune_def Write_def)
  show ?thesis
    by (simp add: Text_unfold [OF nf] Let_def a w h pw snd_Text_height_error)
qed

text \<open>Every step of \<open>Text\<close> reads the parameters under its own keys only.\<close>

lemma Text_styles_cong:
  "\<forall>j \<in> set style_keys. params' j = params j \<Longrightarrow> Text_styles params' p = Text_styles params p"
  by (simp add: Text_styles_def style_keys_def)

lemma Text_font_cong:
  "\<forall>j \<in> set style_keys. params' j = params j \<Longrightarrow> Text_font params' p = Text_font params p"
  by (simp add: Text_font_def style_keys_def)

lemma Text_double_cong:
  "\<forall>j \<in> set style_keys. params' j = params j \<Longrightarrow> Text_double params' p = Text_double params p"
  by (simp add: Text_double_def style_keys_def)

lemma Text_numeric_cong:
  "params' ''width'' = params ''width'' \<Longrightarrow> Text_width params' p = Text_width params p"
  "params' ''height'' = params ''height'' \<Longrightarrow> Text_height params' p = Text_height params p"
  "params' ''x'' = params ''x'' \<Longrightarrow> Text_x params' p = Text_x params p"
  "params' ''y'' = params ''y'' \<Longrightarrow> Text_y params' p = Text_y params p"
  by (simp_all add: Text_width_def Text_height_def Text_x_def Text_y_def)

lemma numeric_error_cong:
  "params' j = params j \<Longrightarrow> numeric_error params' j = numeric_error params j"
  by (simp add: numeric_error_def)

lemma numeric_error_absent: "params j = None \<Longrightarrow> numeric_error params j = None"
  by (simp add: numeric_error_def)

text \<open>
  \<open>Text\<close> in terms of another parameter map that has the same values under the style
  keys: the printer at the numeric parameters is the same.
\<close>

lemma Text_unfold_agree:
  assumes font: "\<forall>f. params ''font'' = Some f \<longrightarrow> 6 \<le> length f"
    and ag: "\<forall>j \<in> set style_keys. params' j = params j"
  shows "Text ti params' text p =
    (let p2 = Text_double params (snd (Text_font params (Text_styles params p)));
         p3 = snd (Text_width params' p2);
         p4 = snd (Text_height params' p3);
         p5 = snd (Text_x params' p4);
         p6 = snd (Text_y params' p5)
     in case numeric_error params' ''width'' of Some e \<Rightarrow> (Return (Some e), p3) | None \<Rightarrow>
        (case numeric_error params' ''height'' of Some e \<Rightarrow> (Return (Some e), p4) | None \<Rightarrow>
        (case numeric_error params' ''x'' of Some e \<Rightarrow> (Return (Some e), p5) | None \<Rightarrow>
        (case numeric_error params' ''y'' of Some e \<Rightarrow> (Return (Some e), p6) | None \<Rightarrow>
           (Return None,
            if 0 < length text then WriteString ti (Replace textReplacer text) p6 else p6)))))"
proof -
  have "params' ''font'' = params ''font''"
    using ag by (simp add: style_keys_def)
  then have "fst (Text_font params' (Text_styles params' p)) = None"
    using font by (intro Text_font_no_panic) simp
  from Text_unfold [OF this, of ti "text"] show ?thesis
    by (simp only: Text_styles_cong [OF ag] Text_font_cong [OF ag] Text_double_cong [OF ag])
qed

text \<open>
  \<open>Text\<close> at the first malformed numeric parameter \<open>k\<close>: the result, the printer, and
  what they depend on.
\<close>

lemma Text_at_malformed:
  assumes font: "\<forall>f. params ''font'' = Some f \<longrightarrow> 6 \<le> length f"
    and fi: "find (\<lambda>k. numeric_error params k \<noteq> None) numeric_keys = Some k"
  shows "fst (Text ti params text p) = Return (numeric_error params k)
     \<and> snd (Text ti params text p) =
         (let q = Text_double params (snd (Text_font params (Text_styles params p)))
          in if k = ''width'' then q
             else if k = ''height'' then snd (Text_width params q)
             else if k = ''x'' then snd (Text_height params (snd (Text_width params q)))
             else snd (Text_x params (snd (Text_height params (snd (Text_width params q))))))
     \<and> Text ti (params |` keys_before k) [] p = (Return None, snd (Text ti params text p))
     \<and> ((\<forall>j \<in> keys_before k \<union> {k}. params' j = params j)
          \<longrightarrow> Text ti' params' text' p = Text ti params text p)
     \<and> ((\<forall>j \<in> set style_keys. params j = None)
           \<and> find (\<lambda>j. params j \<noteq> None) numeric_keys = Some k
          \<longrightarrow> Text ti params text p = (Return (numeric_error params k), p))"
proof -
  have ag0: "\<forall>j \<in> set style_keys. params j = params j" by simp
  note u = Text_unfold_agree [OF font ag0]
  have agr: "\<forall>j \<in> set style_keys. (params |` keys_before k) j = params j"
    by (simp add: keys_before_def)
  note ur = Text_unfold_agree [OF font agr, of ti "[]" p]
  from fi consider
      (W) "k = ''width''" "numeric_error params ''width'' \<noteq> None"
    | (H) "k = ''height''" "numeric_error params ''width'' = None"
        "numeric_error params ''height'' \<noteq> None"
    | (X) "k = ''x''" "numeric_error params ''width'' = None"
        "numeric_error params ''height'' = None" "numeric_error params ''x'' \<noteq> None"
    | (Y) "k = ''y''" "numeric_error params ''width'' = None"
        "numeric_error params ''height'' = None" "numeric_error params ''x'' = None"
        "numeric_error params ''y'' \<noteq> None"
    by (auto simp add: numeric_keys_def split: if_splits)
  then show ?thesis
  proof cases
    case W
    have r: "(params |` keys_before k) ''width'' = None" "(params |` keys_before k) ''height'' = None"
      "(params |` keys_before k) ''x'' = None" "(params |` keys_before k) ''y'' = None"
      by (simp_all add: keys_before_def W(1) numeric_keys_def style_keys_def)
    have 1: "Text ti params text p = (Return (numeric_error params ''width''),
        Text_double params (snd (Text_font params (Text_styles params p))))"
      using W(2) by (auto simp add: u Let_def snd_Text_width_error)
    have 2: "Text ti (params |` keys_before k) [] p = (Return None,
        Text_double params (snd (Text_font params (Text_styles params p))))"
      by (simp add: ur Let_def numeric_error_absent r snd_Text_absent)
    have 3: "Text ti' params' text' p = Text ti params text p"
      if a: "\<forall>j \<in> keys_before k \<union> {k}. params' j = params j"
    proof -
      have s: "\<forall>j \<in> set style_keys. params' j = params j"
        using a by (simp add: keys_before_def)
      have w: "params' ''width'' = params ''width''" using a W(1) by simp
      show ?thesis
        using W(2)
        by (auto simp add: 1 Text_unfold_agree [OF font s] Let_def numeric_error_cong [of params' _ params, OF w]
            Text_numeric_cong(1) [of params' params, OF w] snd_Text_width_error)
    qed
    have 4: "Text ti params text p = (Return (numeric_error params k), p)"
      if "\<forall>j \<in> set style_keys. params j = None"
      using that W by (simp add: 1 Text_styles_absent)
    show ?thesis using 1 2 3 4 W(1) by (simp add: Let_def)
  next
    case H
    have r: "(params |` keys_before k) ''width'' = params ''width''"
      "(params |` keys_before k) ''height'' = None"
      "(params |` keys_before k) ''x'' = None" "(params |` keys_before k) ''y'' = None"
      by (simp_all add: keys_before_def H(1) numeric_keys_def style_keys_def)
    have 1: "Text ti params text p = (Return (numeric_error params ''height''),
        snd (Text_width params (Text_double params (snd (Text_font params (Text_styles params p))))))"
      using H(2,3) by (auto simp add: u Let_def snd_Text_height_error)
    have 2: "Text ti (params |` keys_before k) [] p = (Return None,
        snd (Text_width params (Text_double params (snd (Text_font params (Text_styles params p))))))"
      using H(2)
      by (simp add: ur Let_def numeric_error_absent r snd_Text_absent
          numeric_error_cong [of "params |` keys_before k" _ params, OF r(1)] Text_numeric_cong(1) [of "params |` keys_before k" params, OF r(1)])
    have 3: "Text ti' params' text' p = Text ti params text p"
      if a: "\<forall>j \<in> keys_before k \<union> {k}. params' j = params j"
    proof -
      have s: "\<forall>j \<in> set style_keys. params' j = params j"
        using a by (simp add: keys_before_def)
      have w: "params' ''width'' = params ''width''"
        using a H(1) by (simp add: keys_before_def numeric_keys_def)
      have h: "params' ''height'' = params ''height''" using a H(1) by simp
      show ?thesis
        using H(2,3)
        by (auto simp add: 1 Text_unfold_agree [OF font s] Let_def numeric_error_cong [of params' _ params, OF w]
            numeric_error_cong [of params' _ params, OF h] Text_numeric_cong(1) [of params' params, OF w] Text_numeric_cong(2) [of params' params, OF h]
            snd_Text_height_error)
    qed
    have 4: "Text ti params text p = (Return (numeric_error params k), p)"
      if "\<forall>j \<in> set style_keys. params j = None"
        "find (\<lambda>j. params j \<noteq> None) numeric_keys = Some k"
    proof -
      have "params ''width'' = None"
        using that(2) H(1) by (auto simp add: numeric_keys_def split: if_splits)
      then show ?thesis
        using that(1) H by (simp add: 1 Text_styles_absent snd_Text_absent)
    qed
    show ?thesis using 1 2 3 4 H(1) by (simp add: Let_def)
  next
    case X
    have r: "(params |` keys_before k) ''width'' = params ''width''"
      "(params |` keys_before k) ''height'' = params ''height''"
      "(params |` keys_before k) ''x'' = None" "(params |` keys_before k) ''y'' = None"
      by (simp_all add: keys_before_def X(1) numeric_keys_def style_keys_def)
    have 1: "Text ti params text p = (Return (numeric_error params ''x''),
        snd (Text_height params (snd (Text_width params
          (Text_double params (snd (Text_font params (Text_styles params p))))))))"
      using X(2,3,4) by (auto simp add: u Let_def snd_Text_x_error)
    have 2: "Text ti (params |` keys_before k) [] p = (Return None,
        snd (Text_height params (snd (Text_width params
          (Text_double params (snd (Text_font params (Text_styles params p))))))))"
      using X(2,3)
      by (simp add: ur Let_def numeric_error_absent r snd_Text_absent
          numeric_error_cong [of "params |` keys_before k" _ params, OF r(1)] Text_numeric_cong(1) [of "params |` keys_before k" params, OF r(1)]
          numeric_error_cong [of "params |` keys_before k" _ params, OF r(2)] Text_numeric_cong(2) [of "params |` keys_before k" params, OF r(2)])
    have 3: "Text ti' params' text' p = Text ti params text p"
      if a: "\<forall>j \<in> keys_before k \<union> {k}. params' j = params j"
    proof -
      have s: "\<forall>j \<in> set style_keys. params' j = params j"
        using a by (simp add: keys_before_def)
      have w: "params' ''width'' = params ''width''"
        and h: "params' ''height'' = params ''height''"
        using a X(1) by (simp_all add: keys_before_def numeric_keys_def)
      have x: "params' ''x'' = params ''x''" using a X(1) by simp
      show ?thesis
        using X(2,3,4)
        by (auto simp add: 1 Text_unfold_agree [OF font s] Let_def numeric_error_cong [of params' _ params, OF w]
            numeric_error_cong [of params' _ params, OF h] numeric_error_cong [of params' _ params, OF x] Text_numeric_cong(1) [of params' params, OF w]
            Text_numeric_cong(2) [of params' params, OF h] Text_numeric_cong(3) [of params' params, OF x] snd_Text_x_error)
    qed
    have 4: "Text ti params text p = (Return (numeric_error params k), p)"
      if "\<forall>j \<in> set style_keys. params j = None"
        "find (\<lambda>j. params j \<noteq> None) numeric_keys = Some k"
    proof -
      have "params ''width'' = None" "params ''height'' = None"
        using that(2) X(1) by (auto simp add: numeric_keys_def split: if_splits)
      then show ?thesis
        using that(1) X by (simp add: 1 Text_styles_absent snd_Text_absent)
    qed
    show ?thesis using 1 2 3 4 X(1) by (simp add: Let_def)
  next
    case Y
    have r: "(params |` keys_before k) ''width'' = params ''width''"
      "(params |` keys_before k) ''height'' = params ''height''"
      "(params |` keys_before k) ''x'' = params ''x''" "(params |` keys_before k) ''y'' = None"
      by (simp_all add: keys_before_def Y(1) numeric_keys_def style_keys_def)
    have 1: "Text ti params text p = (Return (numeric_error params ''y''),
        snd (Text_x params (snd (Text_height params (snd (Text_width params
          (Text_double params (snd (Text_font params (Text_styles params p))))))))))"
      using Y(2,3,4,5) by (auto simp add: u Let_def snd_Text_y_error)
    have 2: "Text ti (params |` keys_before k) [] p = (Return None,
        snd (Text_x params (snd (Text_height params (snd (Text_width params
          (Text_double params (snd (Text_font params (Text_styles params p))))))))))"
      using Y(2,3,4)
      by (simp add: ur Let_def numeric_error_absent r snd_Text_absent
          numeric_error_cong [of "params |` keys_before k" _ params, OF r(1)] Text_numeric_cong(1) [of "params |` keys_before k" params, OF r(1)]
          numeric_error_cong [of "params |` keys_before k" _ params, OF r(2)] Text_numeric_cong(2) [of "params |` keys_before k" params, OF r(2)]
          numeric_error_cong [of "params |` keys_before k" _ params, OF r(3)] Text_numeric_cong(3) [of "params |` keys_before k" params, OF r(3)])
    have 3: "Text ti' params' text' p = Text ti params text p"
      if a: "\<forall>j \<in> keys_before k \<union> {k}. params' j = params j"
    proof -
      have s: "\<forall>j \<in> set style_keys. params' j = params j"
        using a by (simp add: keys_before_def)
      have w: "params' ''width'' = params ''width''"
        and h: "params' ''height'' = params ''height''"
        and x: "params' ''x'' = params ''x''"
        using a Y(1) by (simp_all add: keys_before_def numeric_keys_def)
      have y: "params' ''y'' = params ''y''" using a Y(1) by simp
      show ?thesis
        using Y(2,3,4,5)
        by (auto simp add: 1 Text_unfold_agree [OF font s] Let_def numeric_error_cong [of params' _ params, OF w]
            numeric_error_cong [of params' _ params, OF h] numeric_error_cong [of params' _ params, OF x] numeric_error_cong [of params' _ params, OF y]
            Text_numeric_cong(1) [of params' params, OF w] Text_numeric_cong(2) [of params' params, OF h] Text_numeric_cong(3) [of params' params, OF x]
            Text_numeric_cong(4) [of params' params, OF y] snd_Text_y_error)
    qed
    have 4: "Text ti params text p = (Return (numeric_error params k), p)"
      if "\<forall>j \<in> set style_keys. params j = None"
        "find (\<lambda>j. params j \<noteq> None) numeric_keys = Some k"
    proof -
      have "params ''width'' = None" "params ''height'' = None" "params ''x'' = None"
        using that(2) Y(1) by (auto simp add: numeric_keys_def split: if_splits)
      then show ?thesis
        using that(1) Y by (simp add: 1 Text_styles_absent snd_Text_absent)
    qed
    show ?thesis using 1 2 3 4 Y(1) by (simp add: Let_def)
  qed
qed

text \<open>
  Claim C6 as amended. When a numeric parameter (\<open>width\<close>, \<open>height\<close>, \<open>x\<close>, \<open>y\<close>) is
  malformed and the \<open>font\<close> parameter, if there is one, has its six bytes, \<open>Text\<close> returns
  the error of \<open>Atoi\<close> for the first malformed one, \<open>k\<close>, in the order \<open>width\<close>,
  \<open>height\<close>, \<open>x\<close>, \<open>y\<close>, and stops there. The printer it leaves is the printer after
  the style parameters and the numeric parameters before \<open>k\<close>: what they wrote is
  written, and nothing is written for \<open>k\<close>, for the numeric parameters after it or for
  the text. It is the printer that \<open>Text\<close> leaves when it succeeds with the parameters
  before \<open>k\<close> alone and an empty text. Neither the result nor the printer depends on the
  text, on how it would be rendered, or on the numeric parameters after \<open>k\<close>. When no
  style parameter is present and \<open>k\<close> is the first numeric parameter present, nothing is
  written at all.
\<close>

theorem Text_malformed_numeric:
  assumes "\<forall>f. params ''font'' = Some f \<longrightarrow> 6 \<le> length f"
    and "\<exists>k \<in> set numeric_keys. numeric_error params k \<noteq> None"
  shows "\<exists>k. find (\<lambda>k. numeric_error params k \<noteq> None) numeric_keys = Some k
     \<and> numeric_error params k \<noteq> None
     \<and> fst (Text ti params text p) = Return (numeric_error params k)
     \<and> snd (Text ti params text p) =
         (let q = Text_double params (snd (Text_font params (Text_styles params p)))
          in if k = ''width'' then q
             else if k = ''height'' then snd (Text_width params q)
             else if k = ''x'' then snd (Text_height params (snd (Text_width params q)))
             else snd (Text_x params (snd (Text_height params (snd (Text_width params q))))))
     \<and> Text ti (params |` keys_before k) [] p = (Return None, snd (Text ti params text p))
     \<and> ((\<forall>j \<in> keys_before k \<union> {k}. params' j = params j)
          \<longrightarrow> Text ti' params' text' p = Text ti params text p)
     \<and> ((\<forall>j \<in> set style_keys. params j = None)
           \<and> find (\<lambda>j. params j \<noteq> None) numeric_keys = Some k
          \<longrightarrow> Text ti params text p = (Return (numeric_error params k), p))"
proof -
  from assms(2) obtain k
    where fi: "find (\<lambda>k. numeric_error params k \<noteq> None) numeric_keys = Some k"
    by (cases "find (\<lambda>k. numeric_error params k \<noteq> None) numeric_keys")
      (auto simp add: find_None_iff)
  from fi have er: "numeric_error params k \<noteq> None"
    by (auto simp add: find_Some_iff)
  from fi er Text_at_malformed [OF assms(1) fi, of ti "text" p params' ti' text']
  show ?thesis by blast
qed

theorem Text_malformed_numeric_witness:
  "numeric_error [''align'' \<mapsto> ''center'', ''width'' \<mapsto> ''2'', ''height'' \<mapsto> ''tall'',
      ''x'' \<mapsto> ''7''] ''width'' = None
   \<and> numeric_error [''align'' \<mapsto> ''center'', ''width'' \<mapsto> ''2'', ''height'' \<mapsto> ''tall'',
      ''x'' \<mapsto> ''7''] ''height'' = Some ErrSyntax
   \<and> Text (\<lambda>s. [])
       [''align'' \<mapsto> ''center'', ''width'' \<mapsto> ''2'', ''height'' \<mapsto> ''tall'', ''x'' \<mapsto> ''7'']
       ''hi''
       \<lparr>p_w = [], p_width = 1, p_height = 1, p_underline = 0, p_emphasize = 0,
        p_upsidedown = 0, p_rotate = 0, p_reverse = 0, p_smooth = 0\<rparr>
     = (Return (Some ErrSyntax),
        \<lparr>p_w = [[0x1B, 0x61, 0x01], [0x1D, 0x21, 0x10]], p_width = 2, p_height = 1,
         p_underline = 0, p_emphasize = 0, p_upsidedown = 0, p_rotate = 0, p_reverse = 0,
         p_smooth = 0\<rparr>)
   \<and> Text (\<lambda>s. []) [''align'' \<mapsto> ''center'', ''width'' \<mapsto> ''2''] []
       \<lparr>p_w = [], p_width = 1, p_height = 1, p_underline = 0, p_emphasize = 0,
        p_upsidedown = 0, p_rotate = 0, p_reverse = 0, p_smooth = 0\<rparr>
     = (Return None,
        \<lparr>p_w = [[0x1B, 0x61, 0x01], [0x1D, 0x21, 0x10]], p_width = 2, p_height = 1,
         p_underline = 0, p_emphasize = 0, p_upsidedown = 0, p_rotate = 0, p_reverse = 0,
         p_smooth = 0\<rparr>)
   \<and> Text (\<lambda>s. [[0x00]])
       [''align'' \<mapsto> ''center'', ''width'' \<mapsto> ''2'', ''height'' \<mapsto> ''tall'', ''y'' \<mapsto> ''zz'']
       ''bye''
       \<lparr>p_w = [], p_width = 1, p_height = 1, p_underline = 0, p_emphasize = 0,
        p_upsidedown = 0, p_rotate = 0, p_reverse = 0, p_smooth = 0\<rparr>
     = (Return (Some ErrSyntax),
        \<lparr>p_w = [[0x1B, 0x61, 0x01], [0x1D, 0x21, 0x10]], p_width = 2, p_height = 1,
         p_underline = 0, p_emphasize = 0, p_upsidedown = 0, p_rotate = 0, p_reverse = 0,
         p_smooth = 0\<rparr>)"
proof -
  let ?params = "[''align'' \<mapsto> ''center'', ''width'' \<mapsto> ''2'', ''height'' \<mapsto> ''tall'',
      ''x'' \<mapsto> ''7'']"
  let ?params' = "[''align'' \<mapsto> ''center'', ''width'' \<mapsto> ''2'', ''height'' \<mapsto> ''tall'',
      ''y'' \<mapsto> ''zz'']"
  let ?p = "\<lparr>p_w = [], p_width = 1, p_height = 1, p_underline = 0, p_emphasize = 0,
      p_upsidedown = 0, p_rotate = 0, p_reverse = 0, p_smooth = 0\<rparr>"
  let ?q = "\<lparr>p_w = [[0x1B, 0x61, 0x01], [0x1D, 0x21, 0x10]], p_width = 2, p_height = 1,
         p_underline = 0, p_emphasize = 0, p_upsidedown = 0, p_rotate = 0, p_reverse = 0,
         p_smooth = 0\<rparr>"
  have n2: "Atoi ''2'' = Inr 2" and nt: "Atoi ''tall'' = Inl ErrSyntax"
    by (simp_all add: Atoi_def is_digit_def)
  have w: "numeric_error ?params ''width'' = None"
    by (simp add: numeric_error_def n2)
  have h: "numeric_error ?params ''height'' = Some ErrSyntax"
    by (simp add: numeric_error_def nt)
  have h1: "\<forall>f. ?params ''font'' = Some f \<longrightarrow> 6 \<le> length f"
    by simp
  have h2: "\<exists>k \<in> set numeric_keys. numeric_error ?params k \<noteq> None"
    using h by (simp add: numeric_keys_def)
  have fi: "find (\<lambda>k. numeric_error ?params k \<noteq> None) numeric_keys = Some ''height''"
    using w h by (simp add: numeric_keys_def)
  have st: "Text_styles ?params ?p = Write [0x1B, 0x61, 0x01] ?p"
    by (simp add: Text_styles_def toggle_on_def SetAlign_center)
  have fo: "Text_font ?params (Write [0x1B, 0x61, 0x01] ?p) = (None, Write [0x1B, 0x61, 0x01] ?p)"
    by (simp add: Text_font_def)
  have do: "Text_double ?params (Write [0x1B, 0x61, 0x01] ?p) = Write [0x1B, 0x61, 0x01] ?p"
    by (simp add: Text_double_def toggle_on_def)
  have pw: "snd (Text_width ?params (Write [0x1B, 0x61, 0x01] ?p)) = ?q"
    by (simp add: Text_width_def n2 to_byte_def SetFontSize_def SendFontSize_def Sprintf_c_def
        bytes_of_def fmtC_def utf8_AppendRune_def Write_def)
  have re: "?params |` keys_before ''height'' = [''align'' \<mapsto> ''center'', ''width'' \<mapsto> ''2'']"
    by (rule ext) (simp add: restrict_map_def keys_before_def style_keys_def numeric_keys_def)
  have ag: "\<forall>j \<in> keys_before ''height'' \<union> {''height''}. ?params' j = ?params j"
    by (simp add: keys_before_def style_keys_def numeric_keys_def)
  from Text_malformed_numeric [OF h1 h2, of "\<lambda>s. []" "''hi''" ?p ?params' "\<lambda>s. [[0x00]]" "''bye''"]
  obtain k where k: "find (\<lambda>k. numeric_error ?params k \<noteq> None) numeric_keys = Some k"
    and 1: "fst (Text (\<lambda>s. []) ?params ''hi'' ?p) = Return (numeric_error ?params k)"
    and 2: "snd (Text (\<lambda>s. []) ?params ''hi'' ?p) =
         (let q = Text_double ?params (snd (Text_font ?params (Text_styles ?params ?p)))
          in if k = ''width'' then q
             else if k = ''height'' then snd (Text_width ?params q)
             else if k = ''x'' then snd (Text_height ?params (snd (Text_width ?params q)))
             else snd (Text_x ?params (snd (Text_height ?params (snd (Text_width ?params q))))))"
    and 3: "Text (\<lambda>s. []) (?params |` keys_before k) [] ?p
              = (Return None, snd (Text (\<lambda>s. []) ?params ''hi'' ?p))"
    and 4: "(\<forall>j \<in> keys_before k \<union> {k}. ?params' j = ?params j)
          \<longrightarrow> Text (\<lambda>s. [[0x00]]) ?params' ''bye'' ?p = Text (\<lambda>s. []) ?params ''hi'' ?p"
    by blast
  from k fi have kh: "k = ''height''" by simp
  have s: "snd (Text (\<lambda>s. []) ?params ''hi'' ?p) = ?q"
    unfolding 2 kh by (simp only: Let_def st fo do pw snd_conv) simp
  have f: "fst (Text (\<lambda>s. []) ?params ''hi'' ?p) = Return (Some ErrSyntax)"
    unfolding 1 kh by (simp only: h)
  have t: "Text (\<lambda>s. []) ?params ''hi'' ?p = (Return (Some ErrSyntax), ?q)"
    using f s by (simp only: prod_eq_iff fst_conv snd_conv simp_thms)
  have r: "Text (\<lambda>s. []) [''align'' \<mapsto> ''center'', ''width'' \<mapsto> ''2''] [] ?p = (Return None, ?q)"
    using 3 unfolding kh re s .
  have i: "Text (\<lambda>s. [[0x00]]) ?params' ''bye'' ?p = (Return (Some ErrSyntax), ?q)"
    using 4 ag unfolding kh t by blast
  show ?thesis
    using w h t r i by (simp only: simp_thms)
qed

section \<open>Reachable printers\<close>

lemma font_size_ok_Write: "font_size_ok (Write buf p) = font_size_ok p"
  by (simp add: font_size_ok_def Write_def)

lemma font_size_ok_Reset: "font_size_ok (Reset p)"
  by (simp add: font_size_ok_def Reset_def)

lemma font_size_ok_SetFontSize:
  "font_size_ok p \<Longrightarrow> font_size_ok (SetFontSize width height p)"
  by (simp add: SetFontSize_def SendFontSize_def font_size_ok_def Write_def byte_ge_1)

lemma font_size_ok_commands:
  "font_size_ok (End p) = font_size_ok p"
  "font_size_ok (Cut p) = font_size_ok p"
  "font_size_ok (Cash p) = font_size_ok p"
  "font_size_ok (Linefeed p) = font_size_ok p"
  "font_size_ok (FormfeedN n p) = font_size_ok p"
  "font_size_ok (Formfeed p) = font_size_ok p"
  "font_size_ok (Pulse p) = font_size_ok p"
  "font_size_ok (SetFont font p) = font_size_ok p"
  "font_size_ok (SetAlign align p) = font_size_ok p"
  "font_size_ok (SetLang lang p) = font_size_ok p"
  "font_size_ok (SendMoveX x p) = font_size_ok p"
  "font_size_ok (SendMoveY y p) = font_size_ok p"
  "font_size_ok (WriteString ti s p) = font_size_ok p"
  by (simp_all add: End_def Cut_def Cash_def Linefeed_def FormfeedN_def Formfeed_def Pulse_def
      SetFont_def SetAlign_def SetLang_def SendMoveX_def SendMoveY_def WriteString_def
      font_size_ok_def Write_def Let_def)

lemma font_size_ok_send:
  "font_size_ok (SendFontSize p) = font_size_ok p"
  "font_size_ok (SendUnderline p) = font_size_ok p"
  "font_size_ok (SendEmphasize p) = font_size_ok p"
  "font_size_ok (SendUpsidedown p) = font_size_ok p"
  "font_size_ok (SendRotate p) = font_size_ok p"
  "font_size_ok (SendReverse p) = font_size_ok p"
  "font_size_ok (SendSmooth p) = font_size_ok p"
  by (simp_all add: SendFontSize_def SendUnderline_def SendEmphasize_def SendUpsidedown_def
      SendRotate_def SendReverse_def SendSmooth_def font_size_ok_def Write_def)

lemma font_size_ok_set:
  "font_size_ok (SetUnderline v p) = font_size_ok p"
  "font_size_ok (SetEmphasize v p) = font_size_ok p"
  "font_size_ok (SetUpsidedown v p) = font_size_ok p"
  "font_size_ok (SetRotate v p) = font_size_ok p"
  "font_size_ok (SetReverse v p) = font_size_ok p"
  "font_size_ok (SetSmooth v p) = font_size_ok p"
  by (simp_all add: SetUnderline_def SetEmphasize_def SetUpsidedown_def SetRotate_def
      SetReverse_def SetSmooth_def SendUnderline_def SendEmphasize_def SendUpsidedown_def
      SendRotate_def SendReverse_def SendSmooth_def font_size_ok_def Write_def)

lemma font_size_ok_Init: "font_size_ok (Init p)"
  by (simp add: Init_def font_size_ok_Write font_size_ok_Reset)

lemma font_size_ok_Text_styles: "font_size_ok (Text_styles params p) = font_size_ok p"
  by (simp add: Text_styles_def Let_def font_size_ok_set font_size_ok_commands
      split: option.splits)

lemma font_size_ok_Text_font: "font_size_ok (snd (Text_font params p)) = font_size_ok p"
  by (simp add: Text_font_def font_size_ok_commands split: option.splits)

lemma font_size_ok_Text_double:
  "font_size_ok p \<Longrightarrow> font_size_ok (Text_double params p)"
  by (simp add: Text_double_def Let_def font_size_ok_SetFontSize)

lemma font_size_ok_Text_numeric:
  "font_size_ok p \<Longrightarrow> font_size_ok (snd (Text_width params p))"
  "font_size_ok p \<Longrightarrow> font_size_ok (snd (Text_height params p))"
  "font_size_ok p \<Longrightarrow> font_size_ok (snd (Text_x params p))"
  "font_size_ok p \<Longrightarrow> font_size_ok (snd (Text_y params p))"
  by (simp_all add: Text_width_def Text_height_def Text_x_def Text_y_def
      font_size_ok_SetFontSize font_size_ok_commands split: option.splits sum.splits)

lemma font_size_ok_Text:
  assumes "font_size_ok p"
  shows "font_size_ok (snd (Text ti params text p))"
proof -
  let ?p1 = "snd (Text_font params (Text_styles params p))"
  let ?p2 = "snd (Text_width params (Text_double params ?p1))"
  let ?p3 = "snd (Text_height params ?p2)"
  let ?p4 = "snd (Text_x params ?p3)"
  let ?p5 = "snd (Text_y params ?p4)"
  have 1: "font_size_ok ?p1"
    using assms by (simp add: font_size_ok_Text_font font_size_ok_Text_styles)
  then have 2: "font_size_ok ?p2"
    by (intro font_size_ok_Text_numeric font_size_ok_Text_double)
  then have 3: "font_size_ok ?p3" by (rule font_size_ok_Text_numeric)
  then have 4: "font_size_ok ?p4" by (rule font_size_ok_Text_numeric)
  then have 5: "font_size_ok ?p5" by (rule font_size_ok_Text_numeric)
  have "snd (Text ti params text p) \<in> {?p1, ?p2, ?p3, ?p4, ?p5,
      WriteString ti (Replace textReplacer text) ?p5}"
    by (simp add: Text_def split: prod.splits option.splits)
  then show ?thesis
    using 1 2 3 4 5 by (auto simp add: font_size_ok_commands)
qed

lemma font_size_ok_Feed:
  assumes "font_size_ok p"
  shows "font_size_ok (snd (Feed params p))"
  using assms
  by (simp add: Feed_def Let_def font_size_ok_commands font_size_ok_send font_size_ok_Reset
      split: option.splits sum.splits)

lemma font_size_ok_FeedAndCut: "font_size_ok (FeedAndCut params p) = font_size_ok p"
  by (simp add: FeedAndCut_def font_size_ok_commands)

lemma font_size_ok_Barcode: "font_size_ok (Barcode barcode format p)"
  by (simp add: Barcode_def Let_def font_size_ok_Write font_size_ok_commands font_size_ok_Reset)

lemma font_size_ok_Raster_graphics:
  "font_size_ok (snd (Raster_graphics width height lineWidth imgBw l p)) = font_size_ok p"
proof (induction width height lineWidth imgBw l p rule: Raster_graphics.induct)
  case (1 width height lineWidth imgBw l p)
  show ?case
  proof (cases "l <s height")
    case False
    then show ?thesis
      by (simp add: Raster_graphics.simps [of width height lineWidth imgBw l p])
  next
    case True
    show ?thesis
    proof (cases "reslice imgBw (l * lineWidth) ((l + Raster_lines height l) * lineWidth)")
      case None
      then show ?thesis
        using True
        by (simp add: Raster_graphics.simps [of width height lineWidth imgBw l p] Let_def
            font_size_ok_Write)
    next
      case (Some rows)
      then show ?thesis
        using True "1.IH" [OF True refl refl Some]
        by (simp add: Raster_graphics.simps [of width height lineWidth imgBw l p] Let_def
            font_size_ok_Write)
    qed
  qed
qed

lemma font_size_ok_Raster:
  "font_size_ok (snd (Raster width height lineWidth imgBw printingType p)) = font_size_ok p"
  by (simp add: Raster_def Let_def font_size_ok_Raster_graphics font_size_ok_Write)

lemma font_size_ok_NewPrinter: "NewPrinter wr = Inr p \<Longrightarrow> font_size_ok p"
  by (auto simp add: NewPrinter_def font_size_ok_def split: option.splits)

lemma font_size_ok_exec: "font_size_ok p \<Longrightarrow> font_size_ok (exec ti c p)"
  by (cases c)
    (simp_all add: font_size_ok_Write font_size_ok_Reset font_size_ok_Init
      font_size_ok_SetFontSize font_size_ok_commands font_size_ok_send font_size_ok_set
      font_size_ok_Text font_size_ok_Feed font_size_ok_FeedAndCut font_size_ok_Barcode
      font_size_ok_Raster)

lemma font_size_ok_run: "font_size_ok p \<Longrightarrow> font_size_ok (run ti cs p)"
  by (induction cs arbitrary: p) (simp_all add: font_size_ok_exec)

text \<open>
  Claim C7. In every printer reached from a printer that \<open>NewPrinter\<close> returned by a
  sequence of calls of the exported operations, whatever their arguments and whether they
  return, fail or panic, the stored font width and the stored font height are both at
  least 1 and at most 8.
\<close>

theorem font_size_invariant:
  assumes "NewPrinter wr = Inr p0"
  shows "1 \<le> p_width (run ti cs p0) \<and> p_width (run ti cs p0) \<le> 8
       \<and> 1 \<le> p_height (run ti cs p0) \<and> p_height (run ti cs p0) \<le> 8"
proof -
  have "font_size_ok p0" using assms by (rule font_size_ok_NewPrinter)
  then have "font_size_ok (run ti cs p0)" by (rule font_size_ok_run)
  then show ?thesis by (simp add: font_size_ok_def)
qed

theorem font_size_invariant_witness:
  "NewPrinter (Some []) =
     Inr \<lparr>p_w = [], p_width = 1, p_height = 1, p_underline = 0, p_emphasize = 0,
          p_upsidedown = 0, p_rotate = 0, p_reverse = 0, p_smooth = 0\<rparr>
   \<and> 1 \<le> p_width (run (\<lambda>s. [])
         [OpSetFontSize 3 4, OpSetFontSize 0 9, OpText [''width'' \<mapsto> ''300''] ''hi'',
          OpSetUnderline 5, OpBarcode ''12'' 69, OpSetFontSize 8 8, OpFeed [''line'' \<mapsto> ''x'']]
         \<lparr>p_w = [], p_width = 1, p_height = 1, p_underline = 0, p_emphasize = 0,
          p_upsidedown = 0, p_rotate = 0, p_reverse = 0, p_smooth = 0\<rparr>)
   \<and> p_width (run (\<lambda>s. [])
         [OpSetFontSize 3 4, OpSetFontSize 0 9, OpText [''width'' \<mapsto> ''300''] ''hi'',
          OpSetUnderline 5, OpBarcode ''12'' 69, OpSetFontSize 8 8, OpFeed [''line'' \<mapsto> ''x'']]
         \<lparr>p_w = [], p_width = 1, p_height = 1, p_underline = 0, p_emphasize = 0,
          p_upsidedown = 0, p_rotate = 0, p_reverse = 0, p_smooth = 0\<rparr>) \<le> 8
   \<and> 1 \<le> p_height (run (\<lambda>s. [])
         [OpSetFontSize 3 4, OpSetFontSize 0 9, OpText [''width'' \<mapsto> ''300''] ''hi'',
          OpSetUnderline 5, OpBarcode ''12'' 69, OpSetFontSize 8 8, OpFeed [''line'' \<mapsto> ''x'']]
         \<lparr>p_w = [], p_width = 1, p_height = 1, p_underline = 0, p_emphasize = 0,
          p_upsidedown = 0, p_rotate = 0, p_reverse = 0, p_smooth = 0\<rparr>)
   \<and> p_height (run (\<lambda>s. [])
         [OpSetFontSize 3 4, OpSetFontSize 0 9, OpText [''width'' \<mapsto> ''300''] ''hi'',
          OpSetUnderline 5, OpBarcode ''12'' 69, OpSetFontSize 8 8, OpFeed [''line'' \<mapsto> ''x'']]
         \<lparr>p_w = [], p_width = 1, p_height = 1, p_underline = 0, p_emphasize = 0,
          p_upsidedown = 0, p_rotate = 0, p_reverse = 0, p_smooth = 0\<rparr>) \<le> 8"
proof -
  have n: "NewPrinter (Some []) =
     Inr \<lparr>p_w = [], p_width = 1, p_height = 1, p_underline = 0, p_emphasize = 0,
          p_upsidedown = 0, p_rotate = 0, p_reverse = 0, p_smooth = 0\<rparr>"
    by (simp add: NewPrinter_def)
  show ?thesis
    using n font_size_invariant [OF n, of "\<lambda>s. []"
      "[OpSetFontSize 3 4, OpSetFontSize 0 9, OpText [''width'' \<mapsto> ''300''] ''hi'',
        OpSetUnderline 5, OpBarcode ''12'' 69, OpSetFontSize 8 8, OpFeed [''line'' \<mapsto> ''x'']]"]
    by blast
qed

end
